theory Spec2Isabelle
  imports Complex_Main "HOL-Library.Word" "HOL-Library.Sublist"
begin

unbundle bit_operations_syntax

section \<open>JavaScript values\<close>

text \<open>
  The repository holds two variants of one Node.js program that probes Mindustry
  servers over UDP: the file with \<open>parseServerInfo\<close> (called variant A below; it
  downloads the server list and pings each host) and the file with
  \<open>parseHexPayload\<close> (variant B; it writes the list of servers that did not answer).
  Both are embedded here, function by function, under the names of the source; where
  both variants have a function of one name, the one of variant B carries the suffix
  \<open>_B\<close>.

  A JavaScript string is the list of its UTF-16 code units, a \<open>Buffer\<close> the list of
  its bytes.
\<close>

type_synonym jschar = "16 word"
type_synonym jsstring = "jschar list"
type_synonym byte = "8 word"

text \<open>String literals of the source that are plain ASCII are written through \<open>js\<close>.\<close>

definition js :: "string \<Rightarrow> jsstring" where
  "js s = map of_char s"

text \<open>
  A JavaScript number as this program meets it: an integer, or \<open>NaN\<close>. (Every number
  the program computes is an integer far below \<open>2 ^ 53\<close>, where doubles are exact;
  \<open>parseInt\<close> of a digit string longer than that is modelled by its exact value.)
\<close>

datatype jsnum = NaN | Num int

section \<open>The colour tag rewrite (variant A)\<close>

text \<open>
  \<open>config.colorTagRegex = /\[([a-z0-9#]+)\]/g\<close>: the characters the group accepts.
\<close>

definition is_tag_char :: "jschar \<Rightarrow> bool" where
  "is_tag_char c \<longleftrightarrow> (0x61 \<le> c \<and> c \<le> 0x7A) \<or> (0x30 \<le> c \<and> c \<le> 0x39) \<or> c = 0x23"

text \<open>
  \<open>text.replace(config.colorTagRegex, '{$1}')\<close>. A global replace scans from the left
  for the next match and goes on after it. A match at a position is an opening bracket
  \<open>0x5B\<close>, the longest run of tag characters, which must not be empty, and a closing
  bracket \<open>0x5D\<close> (a shorter run is followed by a tag character, so backtracking finds
  nothing more). The match becomes \<open>0x7B\<close>, the run, \<open>0x7D\<close>.
\<close>

function processColorTags :: "jsstring \<Rightarrow> jsstring" where
  "processColorTags [] = []"
| "processColorTags (c # cs) =
     (let tok = takeWhile is_tag_char cs; rest = dropWhile is_tag_char cs in
      if c = 0x5B \<and> tok \<noteq> [] \<and> rest \<noteq> [] \<and> hd rest = 0x5D
      then 0x7B # tok @ 0x7D # processColorTags (tl rest)
      else c # processColorTags cs)"
  by pat_completeness auto
termination
proof (relation "measure length")
  show "wf (measure length)" by simp
next
  fix c :: jschar and cs tok rest :: jsstring
  assume "rest = dropWhile is_tag_char cs"
  then have "length (tl rest) \<le> length cs"
    using length_dropWhile_le [of is_tag_char cs] by simp
  then show "(tl rest, c # cs) \<in> measure length" by simp
next
  fix c :: jschar and cs :: jsstring
  show "(cs, c # cs) \<in> measure length" by simp
qed

section \<open>String.prototype.replace with a string pattern\<close>

text \<open>
  \<open>s.replace(pat, rep)\<close> with a string pattern replaces the first occurrence only.
  (The replacement strings of this program hold no \<open>$\<close>.)
\<close>

fun replace_first :: "jsstring \<Rightarrow> jsstring \<Rightarrow> jsstring \<Rightarrow> jsstring" where
  "replace_first pat rep [] = (if pat = [] then rep else [])"
| "replace_first pat rep (c # cs) =
     (if prefix pat (c # cs) then rep @ drop (length pat) (c # cs)
      else c # replace_first pat rep cs)"

section \<open>Buffers\<close>

text \<open>
  What a JavaScript exception carries, as far as this program can see it. A buffer read
  out of range throws one of two \<open>RangeError\<close>s: \<open>ERR_OUT_OF_RANGE\<close>, whose message
  names the offset received and the greatest offset allowed, or, on a buffer without
  bytes, \<open>ERR_BUFFER_OUT_OF_BOUNDS\<close>, whose message names neither. The others are the
  \<open>TypeError\<close> of a property read on \<open>undefined\<close>, the error of \<open>socket.send\<close> on a
  port that is no port, and \<open>new Error(message)\<close>.
\<close>

datatype js_error =
    ERR_OUT_OF_RANGE nat nat
  | ERR_BUFFER_OUT_OF_BOUNDS
  | TypeError
  | BadPort
  | Error jsstring

text \<open>
  The value of a character as a digit, in either case, and whether it is a digit of a
  radix.
\<close>

definition digit_value :: "jschar \<Rightarrow> nat option" where
  "digit_value c =
     (if 0x30 \<le> c \<and> c \<le> 0x39 then Some (unat c - 48)
      else if 0x61 \<le> c \<and> c \<le> 0x7A then Some (unat c - 87)
      else if 0x41 \<le> c \<and> c \<le> 0x5A then Some (unat c - 55)
      else None)"

definition is_digit_of :: "nat \<Rightarrow> jschar \<Rightarrow> bool" where
  "is_digit_of radix c \<longleftrightarrow> (case digit_value c of Some d \<Rightarrow> d < radix | None \<Rightarrow> False)"

definition digit_of :: "jschar \<Rightarrow> nat" where
  "digit_of c = (case digit_value c of Some d \<Rightarrow> d | None \<Rightarrow> 0)"

text \<open>
  \<open>Buffer.from(hexString, 'hex')\<close> decodes pairs of digits and stops at the first pair
  that is not hexadecimal; a last digit without a partner is dropped.
\<close>

fun Buffer_from_hex :: "jsstring \<Rightarrow> byte list" where
  "Buffer_from_hex (a # b # cs) =
     (if is_digit_of 16 a \<and> is_digit_of 16 b
      then of_nat (16 * digit_of a + digit_of b) # Buffer_from_hex cs
      else [])"
| "Buffer_from_hex _ = []"

text \<open>
  The character of a digit, in lower case. \<open>msg.toString('hex')\<close>: two digits for
  each byte.
\<close>

definition digit_char :: "nat \<Rightarrow> jschar" where
  "digit_char n = (if n < 10 then of_nat (48 + n) else of_nat (87 + n))"

definition Buffer_toString_hex :: "byte list \<Rightarrow> jsstring" where
  "Buffer_toString_hex bs =
     concat (map (\<lambda>b. [digit_char (unat b div 16), digit_char (unat b mod 16)]) bs)"

text \<open>
  \<open>buf.readUInt8(offset)\<close> and \<open>buf.readInt8(offset)\<close> throw when the offset is not
  below the length: the runtime calls \<open>boundsError(offset, buf.length - 1)\<close>, which
  throws \<open>ERR_BUFFER_OUT_OF_BOUNDS\<close> when its second argument is negative (the buffer
  has no bytes) and \<open>ERR_OUT_OF_RANGE\<close> with the offset and that argument otherwise.
  Every offset this program computes is a sum of unsigned bytes and constants, hence a
  natural number.
\<close>

definition boundsError :: "byte list \<Rightarrow> nat \<Rightarrow> js_error" where
  "boundsError buf offset =
     (if buf = [] then ERR_BUFFER_OUT_OF_BOUNDS
      else ERR_OUT_OF_RANGE offset (length buf - 1))"

definition readUInt8 :: "byte list \<Rightarrow> nat \<Rightarrow> js_error + nat" where
  "readUInt8 buf offset =
     (if offset < length buf then Inr (unat (buf ! offset))
      else Inl (boundsError buf offset))"

definition readInt8 :: "byte list \<Rightarrow> nat \<Rightarrow> js_error + int" where
  "readInt8 buf offset =
     (if offset < length buf then Inr (sint (buf ! offset))
      else Inl (boundsError buf offset))"

text \<open>
  \<open>buf.toString('utf-8', start, end)\<close> never throws: a start at or below zero is zero,
  a start at or past the length gives the empty string, an end past the length is the
  length, and an end at or before the start gives the empty string. The UTF-8 decoder of
  the runtime (\<open>utf8Slice\<close>) is a parameter: it maps the bytes of the slice to a string.
\<close>

definition Buffer_toString :: "(byte list \<Rightarrow> jsstring) \<Rightarrow> byte list \<Rightarrow> int \<Rightarrow> int \<Rightarrow> jsstring" where
  "Buffer_toString utf8Slice buf start end' =
     (let len = int (length buf) in
      if 0 < start \<and> len \<le> start then []
      else
        let s = (if start \<le> 0 then 0 else start);
            e = (if len < end' then len else end')
        in if e \<le> s then [] else utf8Slice (take (nat (e - s)) (drop (nat s) buf)))"

text \<open>
  A decoder for concrete evaluations: on a buffer of bytes below \<open>0x80\<close> (ASCII) the
  UTF-8 decoder returns one code unit per byte, with the same value.
\<close>

definition ascii_slice :: "byte list \<Rightarrow> jsstring" where
  "ascii_slice bs = map ucast bs"

section \<open>The binary decoder (variant A)\<close>

record server_info =
  si_name :: jsstring
  si_description :: jsstring
  si_players :: nat
  si_map :: jsstring

text \<open>
  \<open>parseServerInfo(hexString)\<close>. The three \<open>buf.slice\<close> calls and the first
  \<open>buf.toString\<close> of the source cannot throw and their results are not used, so they
  are left out. The reads are kept in the order of the source; the first one that is out
  of range ends the function with its error.
\<close>

definition parseServerInfo :: "(byte list \<Rightarrow> jsstring) \<Rightarrow> jsstring \<Rightarrow> js_error + server_info" where
  "parseServerInfo utf8Slice hexString =
     (let buf = Buffer_from_hex hexString in
      case readUInt8 buf 0 of Inl e \<Rightarrow> Inl e | Inr nameLenth \<Rightarrow>
      case readUInt8 buf (nameLenth + 1) of Inl e \<Rightarrow> Inl e | Inr mapLenth \<Rightarrow>
      case readUInt8 buf (nameLenth + 1 + mapLenth + 1 + 12) of Inl e \<Rightarrow> Inl e | Inr officalLenth \<Rightarrow>
      case readInt8 buf (nameLenth + 1 + mapLenth + 1 + 12 + officalLenth + 1 - 1 + 6) of
        Inl e \<Rightarrow> Inl e | Inr descriptionLenth \<Rightarrow>
      let local_name =
            replace_first (js ''[]'') (js '' '')
              (Buffer_toString utf8Slice buf 1 (int nameLenth - 1));
          local_map =
            replace_first (js ''[]'') (js '' '')
              (Buffer_toString utf8Slice buf (int (nameLenth + 2)) (int (nameLenth + 2 + mapLenth)))
      in
      case readUInt8 buf (nameLenth + 2 + mapLenth + 1 + 2) of Inl e \<Rightarrow> Inl e | Inr local_players \<Rightarrow>
      let local_description =
            replace_first (js ''[]'') (js '' '')
              (Buffer_toString utf8Slice buf
                 (int (nameLenth + 1 + mapLenth + 1 + 12 + officalLenth + 1 - 1 + 6 + 1))
                 (int (nameLenth + 1 + mapLenth + 1 + 12 + officalLenth + 1 - 1 + 6 + 1)
                    + descriptionLenth))
      in Inr \<lparr>si_name = processColorTags local_name,
               si_description = processColorTags local_description,
               si_players = local_players,
               si_map = processColorTags local_map\<rparr>)"

section \<open>Strings and numbers\<close>

text \<open>
  \<open>s.split(sep)\<close> for a separator of one character: the segments between the
  separators, of which there is at least one (the first component of the pair).
\<close>

fun split_on :: "jschar \<Rightarrow> jsstring \<Rightarrow> jsstring \<times> jsstring list" where
  "split_on sep [] = ([], [])"
| "split_on sep (c # cs) =
     (let (seg, segs) = split_on sep cs
      in if c = sep then ([], seg # segs) else (c # seg, segs))"

text \<open>
  The destructuring \<open>[first, second] = s.split(sep)\<close>: the second name is
  \<open>undefined\<close> (\<open>None\<close>) when there is one segment only.
\<close>

definition second_segment :: "jsstring list \<Rightarrow> jsstring option" where
  "second_segment rest = (case rest of [] \<Rightarrow> None | p # _ \<Rightarrow> Some p)"

text \<open>\<open>parts.join(sep)\<close>.\<close>

fun join_on :: "jschar \<Rightarrow> jsstring list \<Rightarrow> jsstring" where
  "join_on sep [] = []"
| "join_on sep [x] = x"
| "join_on sep (x # y # ys) = x @ sep # join_on sep (y # ys)"

text \<open>
  White space as \<open>parseInt\<close>, \<open>trim\<close> and the class \<open>\s\<close> read it: the white space
  and line terminator code points of ECMAScript.
\<close>

definition is_white :: "jschar \<Rightarrow> bool" where
  "is_white c \<longleftrightarrow>
     c = 0x09 \<or> c = 0x0A \<or> c = 0x0B \<or> c = 0x0C \<or> c = 0x0D \<or> c = 0x20 \<or> c = 0xA0
     \<or> c = 0x1680 \<or> (0x2000 \<le> c \<and> c \<le> 0x200A) \<or> c = 0x2028 \<or> c = 0x2029
     \<or> c = 0x202F \<or> c = 0x205F \<or> c = 0x3000 \<or> c = 0xFEFF"

definition trim :: "jsstring \<Rightarrow> jsstring" where
  "trim s = rev (dropWhile is_white (rev (dropWhile is_white s)))"

text \<open>
  \<open>parseInt(string)\<close> with no radix: leading white space is skipped, a sign is read, a
  prefix \<open>0x\<close> or \<open>0X\<close> selects radix 16 (radix 10 otherwise), and the longest run of
  digits of the radix is the number; when that run is empty the result is \<open>NaN\<close>.
\<close>

definition parseInt :: "jsstring \<Rightarrow> jsnum" where
  "parseInt inputString =
     (let S = dropWhile is_white inputString;
          negative = (S \<noteq> [] \<and> hd S = 0x2D);
          S1 = (if S \<noteq> [] \<and> (hd S = 0x2B \<or> hd S = 0x2D) then tl S else S);
          hex = (case S1 of a # b # _ \<Rightarrow> a = 0x30 \<and> (b = 0x78 \<or> b = 0x58) | _ \<Rightarrow> False);
          R = (if hex then 16 else 10);
          S2 = (if hex then drop 2 S1 else S1);
          Z = takeWhile (is_digit_of R) S2
      in if Z = [] then NaN
         else Num ((if negative then - 1 else 1)
                     * int (foldl (\<lambda>acc c. acc * R + digit_of c) 0 Z)))"

text \<open>\<open>parseInt\<close> of a value that may be \<open>undefined\<close>: \<open>parseInt(undefined)\<close> is \<open>NaN\<close>.\<close>

definition parseInt_arg :: "jsstring option \<Rightarrow> jsnum" where
  "parseInt_arg v = (case v of None \<Rightarrow> NaN | Some s \<Rightarrow> parseInt s)"

text \<open>The decimal digits of a natural number, and a number inside a template string.\<close>

fun show_nat :: "nat \<Rightarrow> jsstring" where
  "show_nat n =
     (if n < 10 then [digit_char n]
      else show_nat (n div 10) @ [digit_char (n mod 10)])"

declare show_nat.simps [simp del]

definition Number_toString :: "jsnum \<Rightarrow> jsstring" where
  "Number_toString v =
     (case v of
        NaN \<Rightarrow> js ''NaN''
      | Num i \<Rightarrow> if i < 0 then 0x2D # show_nat (nat (- i)) else show_nat (nat i))"

section \<open>Loading the targets\<close>

text \<open>\<open>config.defaultPort\<close>.\<close>

definition defaultPort :: int where
  "defaultPort = 6567"

text \<open>
  A target as \<open>loadServers\<close> pushes it: \<open>{ host, port, name }\<close> (variant B calls the
  first field \<open>ip\<close>). A group of the server list file has a name and an \<open>address\<close>,
  which is an array of strings or something else (\<open>None\<close>). A list file with a group
  that is no object, or with an address that is no string, is outside the model.
\<close>

record server =
  host :: jsstring
  port :: jsnum
  name :: jsstring

record group =
  g_name :: jsstring
  g_address :: "jsstring list option"

text \<open>
  The body of \<open>group.address.forEach\<close> in variant A:
  \<open>[host, port] = addr.includes(':') ? addr.split(':') : [addr, config.defaultPort]\<close>
  and \<open>servers.push({ host, port: parseInt(port), name: group.name })\<close>.
  (\<open>parseInt\<close> of the number \<open>6567\<close> reads its string.)
\<close>

definition target_of :: "jsstring \<Rightarrow> jsstring \<Rightarrow> server" where
  "target_of group_name addr =
     (if 0x3A \<in> set addr
      then (let (h, rest) = split_on 0x3A addr
            in \<lparr>host = h, port = parseInt_arg (second_segment rest), name = group_name\<rparr>)
      else \<lparr>host = addr, port = parseInt (Number_toString (Num defaultPort)),
             name = group_name\<rparr>)"

text \<open>The same in variant B, where the default port is not sent through \<open>parseInt\<close>.\<close>

definition target_of_B :: "jsstring \<Rightarrow> jsstring \<Rightarrow> server" where
  "target_of_B group_name addr =
     (if 0x3A \<in> set addr
      then (let (h, rest) = split_on 0x3A addr
            in \<lparr>host = h, port = parseInt_arg (second_segment rest), name = group_name\<rparr>)
      else \<lparr>host = addr, port = Num defaultPort, name = group_name\<rparr>)"


definition loadServers_B :: "js_error + group list \<Rightarrow> js_error + server list" where
  "loadServers_B file =
     (case file of
        Inl err \<Rightarrow> Inl err
      | Inr serverGroups \<Rightarrow>
          Inr (concat (map (\<lambda>g. case g_address g of
                                   None \<Rightarrow> []
                                 | Some addrs \<Rightarrow> map (target_of_B (g_name g)) addrs) serverGroups)))"

section \<open>The probe\<close>

text \<open>
  What the \<open>message\<close> event hands to its listener: the bytes, the sender
  (\<open>rinfo.address\<close>, \<open>rinfo.port\<close>), and the value of \<open>Date.now()\<close> when the
  listener runs. A reply as the listener stores it: \<open>{ timestamp, response }\<close>, the
  response being the bytes in hexadecimal.
\<close>

record rinfo =
  address :: jsstring
  rport :: nat

record datagram =
  msg :: "byte list"
  sender :: rinfo
  arrival :: int

record reply =
  timestamp :: int
  response :: jsstring

text \<open>
  The object \<open>responses\<close>: its properties in the order in which they were created.
  Every key the program creates holds a colon, so no key is an array index and the order
  of the properties is the order of their creation.
\<close>

type_synonym replyset = "(jsstring \<times> reply list) list"

text \<open>
  \<open>if (!responses[key]) responses[key] = []; responses[key].push(r)\<close>.
\<close>

fun push_reply :: "jsstring \<Rightarrow> reply \<Rightarrow> replyset \<Rightarrow> replyset" where
  "push_reply k r [] = [(k, [r])]"
| "push_reply k r ((k', rs) # others) =
     (if k' = k then (k', rs @ [r]) # others else (k', rs) # push_reply k r others)"

text \<open>The template strings \<open>`${server.host}:${server.port}`\<close> and \<open>`${rinfo.address}:${rinfo.port}`\<close>.\<close>

definition server_key :: "server \<Rightarrow> jsstring" where
  "server_key server = host server @ 0x3A # Number_toString (port server)"

definition ipKey :: "rinfo \<Rightarrow> jsstring" where
  "ipKey ri = address ri @ 0x3A # Number_toString (Num (int (rport ri)))"

text \<open>
  \<open>hostPortMap\<close> of variant A maps every key to itself, so it is modelled by
  \<open>Object.keys(hostPortMap)\<close>: the keys of the targets in the order of their first
  occurrence.
\<close>

definition store_key :: "jsstring list \<Rightarrow> jsstring \<Rightarrow> jsstring list" where
  "store_key ks k = (if k \<in> set ks then ks else ks @ [k])"

definition hostPortMap :: "server list \<Rightarrow> jsstring list" where
  "hostPortMap servers = foldl store_key [] (map server_key servers)"

text \<open>
  \<open>Object.keys(hostPortMap).find(k => k.endsWith(`:${rinfo.port}`)) || ipKey\<close>: the
  first key that ends with the colon and the port of the sender; the raw key when there
  is none (or when the key found is the empty string, which is falsy).
\<close>

definition matchedKey :: "jsstring list \<Rightarrow> rinfo \<Rightarrow> jsstring" where
  "matchedKey keys ri =
     (case find (\<lambda>k. suffix (0x3A # Number_toString (Num (int (rport ri)))) k) keys of
        None \<Rightarrow> ipKey ri
      | Some k \<Rightarrow> if k = [] then ipKey ri else k)"

text \<open>The listener of \<open>message\<close> in variant A, and in variant B (which has the raw key only).\<close>

definition on_message :: "jsstring list \<Rightarrow> replyset \<Rightarrow> datagram \<Rightarrow> replyset" where
  "on_message keys responses d =
     push_reply (matchedKey keys (sender d))
       \<lparr>timestamp = arrival d, response = Buffer_toString_hex (msg d)\<rparr> responses"

definition on_message_B :: "replyset \<Rightarrow> datagram \<Rightarrow> replyset" where
  "on_message_B responses d =
     push_reply (ipKey (sender d))
       \<lparr>timestamp = arrival d, response = Buffer_toString_hex (msg d)\<rparr> responses"

text \<open>
  \<open>socket.send\<close> throws on a port that is not an integer from 1 to 65535.
\<close>

definition port_ok :: "jsnum \<Rightarrow> bool" where
  "port_ok p = (case p of NaN \<Rightarrow> False | Num i \<Rightarrow> 1 \<le> i \<and> i \<le> 65535)"

text \<open>
  \<open>sendUDPRequests(servers)\<close> of variant A, for the datagrams that arrive before the
  timer closes the socket, in the order of their arrival. With no target the promise
  resolves at once with the empty object. The sends stand in the callback of
  \<open>socket.bind\<close> with no \<open>try\<close> around them and before the listener is registered, so
  a target with a bad port ends the round with the exception that \<open>socket.send\<close> throws.
\<close>

definition sendUDPRequests :: "server list \<Rightarrow> datagram list \<Rightarrow> js_error + replyset" where
  "sendUDPRequests servers datagrams =
     (if servers = [] then Inr []
      else if list_ex (\<lambda>server. \<not> port_ok (port server)) servers then Inl BadPort
      else Inr (foldl (on_message (hostPortMap servers)) [] datagrams))"

text \<open>
  \<open>sendUDPRequests()\<close> of variant B. The listener is registered outside the callback of
  \<open>socket.bind\<close>, and the sends stand in a \<open>try\<close> block there: the targets have no
  effect on the replies collected.
\<close>

definition sendUDPRequests_B :: "datagram list \<Rightarrow> replyset" where
  "sendUDPRequests_B datagrams = foldl on_message_B [] datagrams"

section \<open>Sorting\<close>

text \<open>
  \<open>Array.prototype.sort(compareFn)\<close> is stable: elements that compare equal keep their
  order. Insertion from the right is such a sort.
\<close>

fun insert_by :: "('a \<Rightarrow> 'a \<Rightarrow> int) \<Rightarrow> 'a \<Rightarrow> 'a list \<Rightarrow> 'a list" where
  "insert_by compareFn x [] = [x]"
| "insert_by compareFn x (y # ys) =
     (if compareFn x y \<le> 0 then x # y # ys else y # insert_by compareFn x ys)"

definition Array_sort :: "('a \<Rightarrow> 'a \<Rightarrow> int) \<Rightarrow> 'a list \<Rightarrow> 'a list" where
  "Array_sort compareFn xs = foldr (insert_by compareFn) xs []"

section \<open>The world outside\<close>

text \<open>
  What the aggregation asks of the runtime and of the network: the UTF-8 decoder, the
  ping of a host, the renderings of a date, and the clock. The current time is asked for
  while one key is processed, so it is a function of that key.
\<close>

datatype ping_result = Alive jsstring | NotAlive | ProbeRejected

record world =
  utf8Slice :: "byte list \<Rightarrow> jsstring"
  probe :: "jsstring \<Rightarrow> ping_result"
  dateString :: "int \<Rightarrow> jsstring"
  dateString_B :: "int \<Rightarrow> jsstring"
  nowString :: "jsstring \<Rightarrow> jsstring"
  now :: "jsstring \<Rightarrow> int"

text \<open>A world for concrete evaluations.\<close>

definition sample_world :: world where
  "sample_world =
     \<lparr>utf8Slice = ascii_slice, probe = (\<lambda>h. NotAlive),
      dateString = (\<lambda>t. show_nat (nat t)), dateString_B = (\<lambda>t. show_nat (nat t)),
      nowString = (\<lambda>k. js ''now''), now = (\<lambda>k. 0)\<rparr>"

section \<open>The aggregation of variant A\<close>

text \<open>
  An element of \<open>servers\<close> as \<open>processEnhancedData\<close> pushes it. The field \<open>players\<close>
  is the number read from the payload, or a text; \<open>receivedMeta\<close> is half the length of
  the hexadecimal string.
\<close>

datatype players_value = Count nat | Text jsstring

record entry =
  ip :: jsstring
  e_name :: jsstring
  e_players :: players_value
  e_map :: jsstring
  e_description :: jsstring
  ping :: jsstring
  updatedAt :: jsstring
  sentPackets :: nat
  receivedMeta :: real

text \<open>
  \<open>[host, port] = address.split(':')\<close> and
  \<open>port && parseInt(port) !== config.defaultPort ? `${host}:${port}` : host\<close>.
\<close>

definition displayAddress :: "jsstring \<Rightarrow> jsstring" where
  "displayAddress addr =
     (let (h, rest) = split_on 0x3A addr in
      case second_segment rest of
        None \<Rightarrow> h
      | Some p \<Rightarrow> if p \<noteq> [] \<and> parseInt p \<noteq> Num defaultPort then h @ 0x3A # p else h)"

text \<open>\<open>res.alive ? `${res.time}ms` : '...'\<close>, and the text of the inner \<open>catch\<close>.\<close>

definition pingResult :: "ping_result \<Rightarrow> jsstring" where
  "pingResult res =
     (case res of
        Alive time \<Rightarrow> time @ js ''ms''
      | NotAlive \<Rightarrow> [0x8D85, 0x65F6]
      | ProbeRejected \<Rightarrow> [0x9519, 0x8BEF])"

text \<open>The element pushed by the \<open>catch\<close> block.\<close>

definition failed_entry :: "world \<Rightarrow> jsstring \<Rightarrow> entry" where
  "failed_entry w addr =
     \<lparr>ip = addr,
      e_name = [0x6570, 0x636E, 0x89E3, 0x6790, 0x5931, 0x8D25],
      e_players = Text [0x672A, 0x77E5],
      e_map = [0x672A, 0x77E5, 0x5730, 0x56FE],
      e_description = [0x89E3, 0x6790, 0x5931, 0x8D25],
      ping = [0x672A, 0x77E5],
      updatedAt = nowString w addr,
      sentPackets = 0,
      receivedMeta = 0\<rparr>"

text \<open>
  The body of the loop over \<open>Object.entries(inputData)\<close>. The \<open>try\<close> block throws when
  the list of replies is empty (\<open>latest\<close> is \<open>undefined\<close>) and when
  \<open>parseServerInfo\<close> throws; nothing else in it can.
\<close>

definition process_address :: "world \<Rightarrow> jsstring \<times> reply list \<Rightarrow> entry" where
  "process_address w kv =
     (case kv of (addr, responses) \<Rightarrow>
        (case Array_sort (\<lambda>a b. timestamp b - timestamp a) responses of
           [] \<Rightarrow> failed_entry w addr
         | latest # _ \<Rightarrow>
             (case parseServerInfo (utf8Slice w) (response latest) of
                Inl err \<Rightarrow> failed_entry w addr
              | Inr info \<Rightarrow>
                  \<lparr>ip = displayAddress addr,
                   e_name = si_name info,
                   e_players = Count (si_players info),
                   e_map = si_map info,
                   e_description = si_description info,
                   ping = pingResult (probe w (fst (split_on 0x3A addr))),
                   updatedAt = map (\<lambda>c. if c = 0x2F then 0x2D else c) (dateString w (timestamp latest)),
                   sentPackets = length responses,
                   receivedMeta = real (length (response latest)) / 2\<rparr>)))"

definition processEnhancedData :: "world \<Rightarrow> replyset \<Rightarrow> entry list" where
  "processEnhancedData w inputData = map (process_address w) inputData"

section \<open>The aggregation of variant B\<close>

text \<open>
  \<open>config.colorTagRegex = /\[#?(\w+)\]/g\<close> of variant B: an opening bracket, a hash or
  none, the longest run of word characters, which must not be empty, and a closing
  bracket. The hash is not part of the group, so the replacement drops it.
\<close>

definition is_word_char :: "jschar \<Rightarrow> bool" where
  "is_word_char c \<longleftrightarrow>
     (0x61 \<le> c \<and> c \<le> 0x7A) \<or> (0x41 \<le> c \<and> c \<le> 0x5A) \<or> (0x30 \<le> c \<and> c \<le> 0x39) \<or> c = 0x5F"

function processColorTags_B :: "jsstring \<Rightarrow> jsstring" where
  "processColorTags_B [] = []"
| "processColorTags_B (c # cs) =
     (let body = (if cs \<noteq> [] \<and> hd cs = 0x23 then tl cs else cs);
          tok = takeWhile is_word_char body;
          rest = dropWhile is_word_char body
      in if c = 0x5B \<and> tok \<noteq> [] \<and> rest \<noteq> [] \<and> hd rest = 0x5D
         then 0x7B # tok @ 0x7D # processColorTags_B (tl rest)
         else c # processColorTags_B cs)"
  by pat_completeness auto
termination
proof (relation "measure length")
  show "wf (measure length)" by simp
next
  fix c :: jschar and cs body tok rest :: jsstring
  assume b: "body = (if cs \<noteq> [] \<and> hd cs = 0x23 then tl cs else cs)"
    and r: "rest = dropWhile is_word_char body"
  have "length body \<le> length cs" using b by simp
  moreover have "length rest \<le> length body"
    using r length_dropWhile_le [of is_word_char body] by simp
  ultimately have "length (tl rest) \<le> length cs" by simp
  then show "(tl rest, c # cs) \<in> measure length" by simp
next
  fix c :: jschar and cs :: jsstring
  show "(cs, c # cs) \<in> measure length" by simp
qed

text \<open>
  \<open>.replace(/[\x00-\x1F\x7F-\x9F]/g, '')\<close> removes the control characters;
  \<open>.replace(/\s+/g, ' ')\<close> turns every run of white space into one space.
\<close>

definition is_control :: "jschar \<Rightarrow> bool" where
  "is_control c \<longleftrightarrow> c \<le> 0x1F \<or> (0x7F \<le> c \<and> c \<le> 0x9F)"

function collapse_white :: "jsstring \<Rightarrow> jsstring" where
  "collapse_white [] = []"
| "collapse_white (c # cs) =
     (if is_white c then 0x20 # collapse_white (dropWhile is_white cs)
      else c # collapse_white cs)"
  by pat_completeness auto
termination
proof (relation "measure length")
  show "wf (measure length)" by simp
next
  fix c :: jschar and cs :: jsstring
  show "(dropWhile is_white cs, c # cs) \<in> measure length"
    using length_dropWhile_le [of is_white cs] by simp
next
  fix c :: jschar and cs :: jsstring
  show "(cs, c # cs) \<in> measure length" by simp
qed

text \<open>
  \<open>parseHexPayload(hexString)\<close>. The test \<open>/^[0-9a-fA-F]+$/\<close> asks for a string that is
  not empty and holds hexadecimal digits only; the error it throws is caught by the
  function's own \<open>catch\<close> and thrown again with the prefix. Nothing after the test can
  throw.
\<close>

definition parseHexPayload :: "(byte list \<Rightarrow> jsstring) \<Rightarrow> jsstring \<Rightarrow> js_error + jsstring" where
  "parseHexPayload decoder hexString =
     (if \<not> (hexString \<noteq> [] \<and> list_all (is_digit_of 16) hexString)
      then Inl (Error ([0x48, 0x45, 0x58, 0x89E3, 0x6790, 0x5931, 0x8D25, 0x3A, 0x20]
                        @ [0x5305, 0x542B, 0x975E, 0x31, 0x36, 0x8FDB, 0x5236, 0x5B57, 0x7B26]))
      else
        (let buffer = Buffer_from_hex hexString
         in Inr (trim (collapse_white (filter (\<lambda>c. \<not> is_control c)
                   (Buffer_toString decoder buffer 0 (int (length buffer))))))))"

text \<open>\<open>err.message\<close>; the only error met where it is asked for is an \<open>Error\<close>.\<close>

fun message :: "js_error \<Rightarrow> jsstring" where
  "message (Error m) = m"
| "message _ = []"

text \<open>\<open>validateTimestamp(ts)\<close>: a negative time stamp is replaced by the current time.\<close>

definition validateTimestamp :: "int \<Rightarrow> int \<Rightarrow> int" where
  "validateTimestamp current ts = (if ts < 0 then current else ts)"

text \<open>
  A value of \<open>results\<close>, and the assignment \<open>results[key] = value\<close>: a key that is
  there keeps its place, a new key goes to the end. (JavaScript lists a key that is an
  array index before the others; the keys of a report start with the address of a
  sender, which is no such key, and the statements below look keys up and do not depend
  on their order.)
\<close>

record entry_B =
  b_name :: jsstring
  b_description :: jsstring
  last_updated :: jsstring
  raw_hex :: jsstring
  all_responses :: "reply list"

fun assign :: "'k \<Rightarrow> 'v \<Rightarrow> ('k \<times> 'v) list \<Rightarrow> ('k \<times> 'v) list" where
  "assign k v [] = [(k, v)]"
| "assign k v ((k', v') # others) =
     (if k' = k then (k', v) # others else (k', v') # assign k v others)"

text \<open>
  The first loop: the replies sorted by time stamp, and the last of them
  (\<open>responsesArr[responsesArr.length - 1]\<close>, which is \<open>undefined\<close> for an empty array).
\<close>

definition grouped :: "reply list \<Rightarrow> reply option \<times> reply list" where
  "grouped responses =
     (let responsesArr = Array_sort (\<lambda>a b. timestamp a - timestamp b) responses
      in (if responsesArr = [] then None else Some (last responsesArr), responsesArr))"

text \<open>
  \<open>[domain, port] = address.split(':')\<close>,
  \<open>showPort = port && parseInt(port) !== config.defaultPort\<close>, and the key of the
  assignment in the \<open>try\<close> block, \<open>showPort ? address : domain\<close>.
\<close>

definition showPort :: "jsstring \<Rightarrow> bool" where
  "showPort addr =
     (case second_segment (snd (split_on 0x3A addr)) of
        None \<Rightarrow> False
      | Some p \<Rightarrow> p \<noteq> [] \<and> parseInt p \<noteq> Num defaultPort)"

definition result_key :: "jsstring \<Rightarrow> jsstring" where
  "result_key addr = (if showPort addr then addr else fst (split_on 0x3A addr))"

text \<open>
  The body of the second loop for a group whose \<open>final\<close> is defined: the key and the
  value of the assignment to \<open>results\<close>, from the \<open>try\<close> block or from the \<open>catch\<close>
  block.
\<close>

definition result_of :: "world \<Rightarrow> jsstring \<Rightarrow> reply \<Rightarrow> reply list \<Rightarrow> jsstring \<times> entry_B" where
  "result_of w addr serverData responsesArr =
     (let ts = validateTimestamp (now w addr) (timestamp serverData)
      in case parseHexPayload (utf8Slice w) (response serverData) of
           Inl err \<Rightarrow>
             (addr,
              \<lparr>b_name = [0x6570, 0x636E, 0x89E3, 0x6790, 0x5931, 0x8D25],
               b_description = [0x9519, 0x8BEF, 0x8BE6, 0x60C5, 0x3A, 0x20] @ message err,
               last_updated = nowString w addr,
               raw_hex = response serverData,
               all_responses = responsesArr\<rparr>)
         | Inr parsedData \<Rightarrow>
             (let (namePart, descParts) = split_on 0x7C parsedData;
                  serverName =
                    processColorTags_B
                      (trim (if namePart = [] then [0x672A, 0x77E5, 0x670D, 0x52A1, 0x5668]
                             else namePart));
                  description = processColorTags_B (trim (join_on 0x7C descParts))
              in (result_key addr,
                  \<lparr>b_name = serverName,
                   b_description =
                     (if description = [] then [0x6682, 0x65E0, 0x63CF, 0x8FF0] else description),
                   last_updated = dateString_B w ts,
                   raw_hex = response serverData,
                   all_responses = responsesArr\<rparr>)))"

text \<open>
  Both loops for one key: the group, and the assignment it leads to. A group without a
  \<open>final\<close> makes the \<open>try\<close> block throw on \<open>serverData.timestamp\<close> and the \<open>catch\<close>
  block throw again on \<open>serverData.response\<close>.
\<close>

definition result_for :: "world \<Rightarrow> jsstring \<times> reply list \<Rightarrow> js_error + jsstring \<times> entry_B" where
  "result_for w kv =
     (case kv of (addr, responses) \<Rightarrow>
        (case grouped responses of
           (None, responsesArr) \<Rightarrow> Inl TypeError
         | (Some serverData, responsesArr) \<Rightarrow> Inr (result_of w addr serverData responsesArr)))"

text \<open>
  \<open>processEnhancedData(inputData)\<close> of variant B: the assignments in the order of the
  keys; the \<open>TypeError\<close> of a group without a \<open>final\<close> ends the function.
\<close>

fun aggregate_B :: "world \<Rightarrow> replyset \<Rightarrow> (jsstring \<times> entry_B) list \<Rightarrow> js_error + (jsstring \<times> entry_B) list" where
  "aggregate_B w [] results = Inr results"
| "aggregate_B w (kv # others) results =
     (case result_for w kv of
        Inl err \<Rightarrow> Inl err
      | Inr (k, v) \<Rightarrow> aggregate_B w others (assign k v results))"

definition processEnhancedData_B :: "world \<Rightarrow> replyset \<Rightarrow> js_error + (jsstring \<times> entry_B) list" where
  "processEnhancedData_B w inputData = aggregate_B w inputData []"

section \<open>The main flow of variant B\<close>

text \<open>
  \<open>servers.filter(server => !responseKeys.has(`${server.ip}:${server.port}`))\<close>.
\<close>

definition noResponseServers :: "server list \<Rightarrow> replyset \<Rightarrow> server list" where
  "noResponseServers servers responses =
     filter (\<lambda>server. server_key server \<notin> set (map fst responses)) servers"

text \<open>
  \<open>main()\<close> of variant B, as far as the report and the list of the targets without a
  reply go: the probe, the aggregation, the targets loaded again, the filter. The files
  written in between do not change the values, and a failure of the file system while
  they are written is outside the model. An exception of the aggregation or of the
  loader ends in the \<open>catch\<close> of \<open>main\<close>, and nothing later is computed.
\<close>

definition main_B :: "world \<Rightarrow> js_error + group list \<Rightarrow> datagram list
    \<Rightarrow> js_error + (jsstring \<times> entry_B) list \<times> server list" where
  "main_B w file datagrams =
     (let responses = sendUDPRequests_B datagrams in
      case processEnhancedData_B w responses of
        Inl err \<Rightarrow> Inl err
      | Inr processedData \<Rightarrow>
          (case loadServers_B file of
             Inl err \<Rightarrow> Inl err
           | Inr servers \<Rightarrow> Inr (processedData, noResponseServers servers responses)))"

section \<open>Properties of the colour tag rewrite\<close>

lemma tag_char_not_bracket:
  "is_tag_char c \<Longrightarrow> c \<noteq> 0x5B \<and> c \<noteq> 0x5D \<and> c \<noteq> 0x7B \<and> c \<noteq> 0x7D"
  by (auto simp: is_tag_char_def)

lemma not_tag_brackets [simp]:
  "\<not> is_tag_char 0x5B" "\<not> is_tag_char 0x5D" "\<not> is_tag_char 0x7B" "\<not> is_tag_char 0x7D"
  by (simp_all add: is_tag_char_def)

lemma pct_tag_prefix:
  "\<forall>x\<in>set tok. is_tag_char x \<Longrightarrow> processColorTags (tok @ xs) = tok @ processColorTags xs"
  by (induction tok) (auto simp: Let_def dest: tag_char_not_bracket)

lemma pct_Nil_iff [simp]: "processColorTags s = [] \<longleftrightarrow> s = []"
  by (cases s) (auto simp: Let_def)

lemma pct_hd:
  "s \<noteq> [] \<Longrightarrow> \<not> is_tag_char (hd s) \<Longrightarrow>
     \<not> is_tag_char (hd (processColorTags s)) \<and> (hd (processColorTags s) = 0x5D \<longleftrightarrow> hd s = 0x5D)"
  by (cases s) (auto simp: Let_def)

lemma pct_split:
  "processColorTags cs = takeWhile is_tag_char cs @ processColorTags (dropWhile is_tag_char cs)"
proof -
  have "processColorTags (takeWhile is_tag_char cs @ dropWhile is_tag_char cs)
        = takeWhile is_tag_char cs @ processColorTags (dropWhile is_tag_char cs)"
    by (rule pct_tag_prefix) (auto dest: set_takeWhileD)
  then show ?thesis by simp
qed

lemma pct_takeWhile: "takeWhile is_tag_char (processColorTags cs) = takeWhile is_tag_char cs"
proof -
  define t where "t = takeWhile is_tag_char cs"
  define d where "d = dropWhile is_tag_char cs"
  have eq: "processColorTags cs = t @ processColorTags d"
    unfolding t_def d_def by (rule pct_split)
  have t_tag: "\<forall>x\<in>set t. is_tag_char x"
    unfolding t_def by (auto dest: set_takeWhileD)
  have "takeWhile is_tag_char (processColorTags d) = []"
  proof (cases "d = []")
    case True
    then show ?thesis by simp
  next
    case False
    then have "\<not> is_tag_char (hd d)" unfolding d_def using hd_dropWhile by blast
    with False have "\<not> is_tag_char (hd (processColorTags d))"
      using pct_hd by blast
    moreover have "processColorTags d \<noteq> []" using False by simp
    ultimately show ?thesis by (cases "processColorTags d") auto
  qed
  with t_tag have "takeWhile is_tag_char (t @ processColorTags d) = t"
    by (simp add: takeWhile_append2)
  with eq show ?thesis by (simp add: t_def)
qed

lemma pct_dropWhile:
  "dropWhile is_tag_char (processColorTags cs) = processColorTags (dropWhile is_tag_char cs)"
proof -
  have "takeWhile is_tag_char (processColorTags cs) @ dropWhile is_tag_char (processColorTags cs)
        = takeWhile is_tag_char cs @ processColorTags (dropWhile is_tag_char cs)"
    using pct_split [of cs] by simp
  then show ?thesis by (simp add: pct_takeWhile)
qed

lemma pct_idem: "processColorTags (processColorTags s) = processColorTags s"
proof (induction s rule: processColorTags.induct)
  case 1
  then show ?case by simp
next
  case (2 c cs)
  define tok where "tok = takeWhile is_tag_char cs"
  define rest where "rest = dropWhile is_tag_char cs"
  show ?case
  proof (cases "c = 0x5B \<and> tok \<noteq> [] \<and> rest \<noteq> [] \<and> hd rest = 0x5D")
    case True
    have tok_tag: "\<forall>x\<in>set tok. is_tag_char x"
      unfolding tok_def by (auto dest: set_takeWhileD)
    from True have out: "processColorTags (c # cs) = 0x7B # tok @ 0x7D # processColorTags (tl rest)"
      by (simp add: tok_def rest_def Let_def)
    have ih: "processColorTags (processColorTags (tl rest)) = processColorTags (tl rest)"
      using "2.IH"(1) [OF tok_def rest_def] True by simp
    have "processColorTags (0x7B # tok @ 0x7D # processColorTags (tl rest))
          = 0x7B # processColorTags (tok @ 0x7D # processColorTags (tl rest))"
      by (simp add: Let_def)
    also have "\<dots> = 0x7B # tok @ processColorTags (0x7D # processColorTags (tl rest))"
      by (simp add: pct_tag_prefix [OF tok_tag])
    also have "\<dots> = 0x7B # tok @ 0x7D # processColorTags (processColorTags (tl rest))"
      by (simp add: Let_def)
    finally show ?thesis using out ih by simp
  next
    case False
    then have out: "processColorTags (c # cs) = c # processColorTags cs"
      by (auto simp: tok_def rest_def Let_def)
    have ih: "processColorTags (processColorTags cs) = processColorTags cs"
      using "2.IH"(2) [OF tok_def rest_def] False by simp
    have nomatch: "\<not> (c = 0x5B \<and> takeWhile is_tag_char (processColorTags cs) \<noteq> []
        \<and> dropWhile is_tag_char (processColorTags cs) \<noteq> []
        \<and> hd (dropWhile is_tag_char (processColorTags cs)) = 0x5D)"
    proof (cases "rest = []")
      case True
      then show ?thesis by (simp add: pct_dropWhile rest_def)
    next
      case nonempty: False
      then have "\<not> is_tag_char (hd rest)" unfolding rest_def using hd_dropWhile by blast
      with nonempty have "hd (processColorTags rest) = 0x5D \<longleftrightarrow> hd rest = 0x5D"
        using pct_hd by blast
      with False nonempty show ?thesis
        by (auto simp: pct_dropWhile pct_takeWhile rest_def tok_def)
    qed
    have "processColorTags (c # processColorTags cs) = c # processColorTags (processColorTags cs)"
      using nomatch by (auto simp: Let_def)
    with out ih show ?thesis by simp
  qed
qed


lemma pct_length: "length (processColorTags s) = length s"
proof (induction s rule: processColorTags.induct)
  case 1
  then show ?case by simp
next
  case (2 c cs)
  define tok where "tok = takeWhile is_tag_char cs"
  define rest where "rest = dropWhile is_tag_char cs"
  have cs: "length cs = length tok + length rest"
    unfolding tok_def rest_def by (metis length_append takeWhile_dropWhile_id)
  show ?case
  proof (cases "c = 0x5B \<and> tok \<noteq> [] \<and> rest \<noteq> [] \<and> hd rest = 0x5D")
    case True
    then obtain r where r: "rest = 0x5D # r" by (cases rest) auto
    have "length (processColorTags r) = length r"
      using "2.IH"(1) [OF tok_def rest_def] True r by simp
    moreover from True r have "processColorTags (c # cs) = 0x7B # tok @ 0x7D # processColorTags r"
      by (simp add: tok_def [symmetric] rest_def [symmetric] Let_def)
    ultimately show ?thesis using cs r by (simp del: processColorTags.simps)
  next
    case False
    then have "length (processColorTags cs) = length cs"
      using "2.IH"(2) [OF tok_def rest_def] by simp
    moreover from False have "processColorTags (c # cs) = c # processColorTags cs"
      by (auto simp: tok_def rest_def Let_def)
    ultimately show ?thesis by (simp del: processColorTags.simps)
  qed
qed

lemma pct_occurrence:
  assumes tok: "tok \<noteq> []" "\<forall>x\<in>set tok. is_tag_char x"
  shows "processColorTags (pre @ 0x5B # tok @ 0x5D # post)
         = processColorTags pre @ 0x7B # tok @ 0x7D # processColorTags post"
proof (induction pre rule: processColorTags.induct)
  case 1
  have "takeWhile is_tag_char (tok @ 0x5D # post) = tok"
    using tok(2) by (simp add: takeWhile_append2)
  moreover have "dropWhile is_tag_char (tok @ 0x5D # post) = 0x5D # post"
    using tok(2) by (simp add: dropWhile_append2)
  ultimately show ?case using tok(1) by (simp add: Let_def)
next
  case (2 c cs)
  define X where "X = 0x5B # tok @ 0x5D # post"
  define t where "t = takeWhile is_tag_char cs"
  define d where "d = dropWhile is_tag_char cs"
  have tX: "takeWhile is_tag_char (cs @ X) = t"
    unfolding t_def X_def by (induction cs) auto
  have dX: "dropWhile is_tag_char (cs @ X) = d @ X"
    unfolding d_def X_def by (induction cs) auto
  show ?case
  proof (cases "c = 0x5B \<and> t \<noteq> [] \<and> d \<noteq> [] \<and> hd d = 0x5D")
    case True
    then have ih: "processColorTags (tl d @ X) = processColorTags (tl d) @ 0x7B # tok @ 0x7D # processColorTags post"
      using "2.IH"(1) [OF t_def d_def] by (simp add: X_def)
    from True have "processColorTags (c # cs @ X) = 0x7B # t @ 0x7D # processColorTags (tl d @ X)"
      by (simp add: Let_def tX dX)
    moreover from True have "processColorTags (c # cs) = 0x7B # t @ 0x7D # processColorTags (tl d)"
      by (simp add: Let_def t_def d_def)
    ultimately show ?thesis using ih by (simp add: X_def)
  next
    case False
    then have ih: "processColorTags (cs @ X) = processColorTags cs @ 0x7B # tok @ 0x7D # processColorTags post"
      using "2.IH"(2) [OF t_def d_def] by (simp add: X_def)
    from False have "\<not> (c = 0x5B \<and> t \<noteq> [] \<and> d @ X \<noteq> [] \<and> hd (d @ X) = 0x5D)"
      by (cases d) (auto simp: X_def)
    then have "processColorTags (c # cs @ X) = c # processColorTags (cs @ X)"
      by (auto simp: Let_def tX dX)
    moreover from False have "processColorTags (c # cs) = c # processColorTags cs"
      by (auto simp: Let_def t_def d_def)
    ultimately show ?thesis using ih by (simp add: X_def)
  qed
qed

lemma pct_no_occurrence:
  assumes tok: "tok \<noteq> []" "\<forall>x\<in>set tok. is_tag_char x"
  shows "processColorTags s \<noteq> pre @ 0x5B # tok @ 0x5D # post"
proof
  assume eq: "processColorTags s = pre @ 0x5B # tok @ 0x5D # post"
  have "processColorTags (processColorTags s) = processColorTags s" by (rule pct_idem)
  then have a: "processColorTags (pre @ 0x5B # tok @ 0x5D # post) = pre @ 0x5B # tok @ 0x5D # post"
    by (simp only: eq)
  have b: "processColorTags (pre @ 0x5B # tok @ 0x5D # post)
           = processColorTags pre @ 0x7B # tok @ 0x7D # processColorTags post"
    by (rule pct_occurrence [OF tok])
  have "pre @ 0x5B # tok @ 0x5D # post = processColorTags pre @ 0x7B # tok @ 0x7D # processColorTags post"
    by (rule trans [OF a [symmetric] b])
  moreover have "length pre = length (processColorTags pre)" by (simp add: pct_length)
  ultimately have "(0x5B :: jschar) = 0x7B" by (simp add: append_eq_append_conv)
  then show False by simp
qed

section \<open>Properties of buffers and of the decoder\<close>

lemma digit_char_digit:
  "n < 16 \<Longrightarrow> is_digit_of 16 (digit_char n) \<and> digit_of (digit_char n) = n"
proof -
  assume n: "n < 16"
  have "list_all (\<lambda>n. is_digit_of 16 (digit_char n) \<and> digit_of (digit_char n) = n) [0..<16]"
    by code_simp
  with n show ?thesis by (simp add: list_all_iff)
qed

lemma Buffer_from_hex_toString_hex: "Buffer_from_hex (Buffer_toString_hex bs) = bs"
proof (induction bs)
  case Nil
  then show ?case by (simp add: Buffer_toString_hex_def)
next
  case (Cons b bs)
  have "unat b < 2 ^ LENGTH(8)" by (rule unsigned_less)
  then have hi: "unat b div 16 < 16" by simp
  have lo: "unat b mod 16 < 16" by simp
  have "(of_nat (16 * (unat b div 16) + unat b mod 16) :: byte) = b"
    by simp
  with Cons digit_char_digit [OF hi] digit_char_digit [OF lo] show ?case
    by (simp add: Buffer_toString_hex_def)
qed

lemma toString_hex_digits: "list_all (is_digit_of 16) (Buffer_toString_hex bs)"
proof (induction bs)
  case Nil
  then show ?case by (simp add: Buffer_toString_hex_def)
next
  case (Cons b bs)
  have "unat b < 2 ^ LENGTH(8)" by (rule unsigned_less)
  then have hi: "unat b div 16 < 16" by simp
  have lo: "unat b mod 16 < 16" by simp
  from Cons digit_char_digit [OF hi] digit_char_digit [OF lo] show ?case
    by (simp add: Buffer_toString_hex_def)
qed

lemma toString_hex_Nil_iff: "Buffer_toString_hex bs = [] \<longleftrightarrow> bs = []"
  by (cases bs) (simp_all add: Buffer_toString_hex_def)

lemma length_toString_hex: "length (Buffer_toString_hex bs) = 2 * length bs"
  by (induction bs) (simp_all add: Buffer_toString_hex_def)

text \<open>The decoder in terms of the three lengths it reads.\<close>

lemma parseServerInfo_accepts:
  fixes hexString :: jsstring
  defines "buf \<equiv> Buffer_from_hex hexString"
  defines "L1 \<equiv> unat (buf ! 0)"
  defines "L2 \<equiv> unat (buf ! (L1 + 1))"
  defines "L3 \<equiv> unat (buf ! (L1 + L2 + 14))"
  assumes ok: "L1 + L2 + L3 + 20 < length buf"
  shows "parseServerInfo dec hexString =
     Inr \<lparr>si_name = processColorTags (replace_first (js ''[]'') (js '' '')
               (Buffer_toString dec buf 1 (int L1 - 1))),
          si_description = processColorTags (replace_first (js ''[]'') (js '' '')
               (Buffer_toString dec buf (int (L1 + L2 + L3 + 21))
                  (int (L1 + L2 + L3 + 21) + sint (buf ! (L1 + L2 + L3 + 20))))),
          si_players = unat (buf ! (L1 + L2 + 5)),
          si_map = processColorTags (replace_first (js ''[]'') (js '' '')
               (Buffer_toString dec buf (int (L1 + 2)) (int (L1 + 2 + L2))))\<rparr>"
proof -
  have r1: "readUInt8 buf 0 = Inr L1" using ok by (auto simp: readUInt8_def L1_def)
  have r2: "readUInt8 buf (L1 + 1) = Inr L2" using ok by (simp add: readUInt8_def L2_def)
  have r3: "readUInt8 buf (L1 + 1 + L2 + 1 + 12) = Inr L3"
    using ok by (simp add: readUInt8_def L3_def add.commute add.left_commute)
  have e4: "L1 + 1 + L2 + 1 + 12 + L3 + 1 - 1 + 6 = L1 + L2 + L3 + 20" by simp
  have r4: "readInt8 buf (L1 + L2 + L3 + 20) = Inr (sint (buf ! (L1 + L2 + L3 + 20)))"
    using ok by (simp add: readInt8_def)
  have e5: "L1 + 2 + L2 + 1 + 2 = L1 + L2 + 5" by simp
  have r5: "readUInt8 buf (L1 + L2 + 5) = Inr (unat (buf ! (L1 + L2 + 5)))"
    using ok by (simp add: readUInt8_def)
  have e6: "L1 + L2 + L3 + 20 + 1 = L1 + L2 + L3 + 21" by simp
  show ?thesis
    unfolding parseServerInfo_def buf_def [symmetric] Let_def
    by (simp only: r1 r2 r3 e4 r4 e5 r5 e6 sum.case)
qed

lemma parseServerInfo_rejects:
  fixes hexString :: jsstring
  defines "buf \<equiv> Buffer_from_hex hexString"
  defines "L1 \<equiv> unat (buf ! 0)"
  defines "L2 \<equiv> unat (buf ! (L1 + 1))"
  defines "L3 \<equiv> unat (buf ! (L1 + L2 + 14))"
  shows "buf = [] \<Longrightarrow> parseServerInfo dec hexString = Inl ERR_BUFFER_OUT_OF_BOUNDS"
    and "buf \<noteq> [] \<Longrightarrow> length buf \<le> L1 + 1 \<Longrightarrow>
           parseServerInfo dec hexString = Inl (ERR_OUT_OF_RANGE (L1 + 1) (length buf - 1))"
    and "L1 + 1 < length buf \<Longrightarrow> length buf \<le> L1 + L2 + 14 \<Longrightarrow>
           parseServerInfo dec hexString = Inl (ERR_OUT_OF_RANGE (L1 + L2 + 14) (length buf - 1))"
    and "L1 + L2 + 14 < length buf \<Longrightarrow> length buf \<le> L1 + L2 + L3 + 20 \<Longrightarrow>
           parseServerInfo dec hexString
             = Inl (ERR_OUT_OF_RANGE (L1 + L2 + L3 + 20) (length buf - 1))"
proof -
  have e4: "L1 + 1 + L2 + 1 + 12 + L3 + 1 - 1 + 6 = L1 + L2 + L3 + 20" by simp
  have e3: "L1 + 1 + L2 + 1 + 12 = L1 + L2 + 14" by simp
  {
    assume a: "buf = []"
    then have r1: "readUInt8 buf 0 = Inl ERR_BUFFER_OUT_OF_BOUNDS"
      by (simp add: readUInt8_def boundsError_def)
    show "parseServerInfo dec hexString = Inl ERR_BUFFER_OUT_OF_BOUNDS"
      unfolding parseServerInfo_def buf_def [symmetric] Let_def
      by (simp only: r1 sum.case)
  }
  {
    assume b: "buf \<noteq> []" "length buf \<le> L1 + 1"
    then have r1: "readUInt8 buf 0 = Inr L1" by (simp add: readUInt8_def L1_def)
    from b have r2: "readUInt8 buf (L1 + 1) = Inl (ERR_OUT_OF_RANGE (L1 + 1) (length buf - 1))"
      by (simp add: readUInt8_def boundsError_def)
    show "parseServerInfo dec hexString = Inl (ERR_OUT_OF_RANGE (L1 + 1) (length buf - 1))"
      unfolding parseServerInfo_def buf_def [symmetric] Let_def
      by (simp only: r1 r2 sum.case)
  }
  {
    assume c: "L1 + 1 < length buf" "length buf \<le> L1 + L2 + 14"
    from c(1) have "0 < length buf" by linarith
    then have ne: "buf \<noteq> []" by simp
    from ne have r1: "readUInt8 buf 0 = Inr L1" by (simp add: readUInt8_def L1_def)
    from c have r2: "readUInt8 buf (L1 + 1) = Inr L2" by (simp add: readUInt8_def L2_def)
    from c ne have r3: "readUInt8 buf (L1 + 1 + L2 + 1 + 12)
        = Inl (ERR_OUT_OF_RANGE (L1 + L2 + 14) (length buf - 1))"
      by (simp add: readUInt8_def boundsError_def e3)
    show "parseServerInfo dec hexString = Inl (ERR_OUT_OF_RANGE (L1 + L2 + 14) (length buf - 1))"
      unfolding parseServerInfo_def buf_def [symmetric] Let_def
      by (simp only: r1 r2 r3 sum.case)
  }
  {
    assume d: "L1 + L2 + 14 < length buf" "length buf \<le> L1 + L2 + L3 + 20"
    from d(1) have "0 < length buf" by linarith
    then have ne: "buf \<noteq> []" by simp
    from ne have r1: "readUInt8 buf 0 = Inr L1" by (simp add: readUInt8_def L1_def)
    from d have r2: "readUInt8 buf (L1 + 1) = Inr L2" by (simp add: readUInt8_def L2_def)
    from d have r3: "readUInt8 buf (L1 + 1 + L2 + 1 + 12) = Inr L3"
      unfolding e3 by (simp add: readUInt8_def L3_def)
    from d ne have r4: "readInt8 buf (L1 + 1 + L2 + 1 + 12 + L3 + 1 - 1 + 6)
        = Inl (ERR_OUT_OF_RANGE (L1 + L2 + L3 + 20) (length buf - 1))"
      by (simp add: readInt8_def boundsError_def e4)
    show "parseServerInfo dec hexString
        = Inl (ERR_OUT_OF_RANGE (L1 + L2 + L3 + 20) (length buf - 1))"
      unfolding parseServerInfo_def buf_def [symmetric] Let_def
      by (simp only: r1 r2 r3 r4 sum.case)
  }
qed

lemma parseServerInfo_fails:
  fixes hexString :: jsstring
  defines "buf \<equiv> Buffer_from_hex hexString"
  defines "L1 \<equiv> unat (buf ! 0)"
  defines "L2 \<equiv> unat (buf ! (L1 + 1))"
  defines "L3 \<equiv> unat (buf ! (L1 + L2 + 14))"
  assumes bad: "\<not> L1 + L2 + L3 + 20 < length buf"
  shows "\<exists>e. parseServerInfo dec hexString = Inl e"
proof -
  consider (a) "buf = []"
    | (b) "buf \<noteq> []" "length buf \<le> L1 + 1"
    | (c) "L1 + 1 < length buf" "length buf \<le> L1 + L2 + 14"
    | (d) "L1 + L2 + 14 < length buf" "length buf \<le> L1 + L2 + L3 + 20"
    using bad by fastforce
  then show ?thesis
  proof cases
    case a
    then show ?thesis
      using parseServerInfo_rejects(1) [of hexString dec] unfolding buf_def by blast
  next
    case b
    then show ?thesis
      using parseServerInfo_rejects(2) [of hexString dec]
      unfolding buf_def L1_def by blast
  next
    case c
    then show ?thesis
      using parseServerInfo_rejects(3) [of hexString dec]
      unfolding buf_def L1_def L2_def by blast
  next
    case d
    then show ?thesis
      using parseServerInfo_rejects(4) [of hexString dec]
      unfolding buf_def L1_def L2_def L3_def by blast
  qed
qed

lemma parseServerInfo_Inr_iff:
  fixes hexString :: jsstring
  defines "buf \<equiv> Buffer_from_hex hexString"
  defines "L1 \<equiv> unat (buf ! 0)"
  defines "L2 \<equiv> unat (buf ! (L1 + 1))"
  defines "L3 \<equiv> unat (buf ! (L1 + L2 + 14))"
  shows "(\<exists>r. parseServerInfo dec hexString = Inr r) \<longleftrightarrow> L1 + L2 + L3 + 20 < length buf"
proof (cases "L1 + L2 + L3 + 20 < length buf")
  case True
  then show ?thesis
    using parseServerInfo_accepts [of hexString dec]
    unfolding buf_def L1_def L2_def L3_def by simp
next
  case False
  then show ?thesis
    using parseServerInfo_fails [of hexString dec]
    unfolding buf_def L1_def L2_def L3_def by auto
qed

lemma parseHexPayload_Inl_iff:
  "(\<exists>e. parseHexPayload dec hexString = Inl e)
     \<longleftrightarrow> hexString = [] \<or> \<not> list_all (is_digit_of 16) hexString"
  by (auto simp: parseHexPayload_def Let_def)

lemma parseServerInfo_payload:
  fixes payload :: "byte list"
  defines "L1 \<equiv> unat (payload ! 0)"
  defines "L2 \<equiv> unat (payload ! (L1 + 1))"
  defines "L3 \<equiv> unat (payload ! (L1 + L2 + 14))"
  assumes ok: "L1 + L2 + L3 + 20 < length payload"
  shows "parseServerInfo dec (Buffer_toString_hex payload) =
     Inr \<lparr>si_name = processColorTags (replace_first (js ''[]'') (js '' '')
               (Buffer_toString dec payload 1 (int L1 - 1))),
          si_description = processColorTags (replace_first (js ''[]'') (js '' '')
               (Buffer_toString dec payload (int (L1 + L2 + L3 + 21))
                  (int (L1 + L2 + L3 + 21) + sint (payload ! (L1 + L2 + L3 + 20))))),
          si_players = unat (payload ! (L1 + L2 + 5)),
          si_map = processColorTags (replace_first (js ''[]'') (js '' '')
               (Buffer_toString dec payload (int (L1 + 2)) (int (L1 + 2 + L2))))\<rparr>"
  using parseServerInfo_accepts [of "Buffer_toString_hex payload" dec] ok
  unfolding Buffer_from_hex_toString_hex L1_def L2_def L3_def by simp

section \<open>Properties of replace and split\<close>

lemma replace_first_none:
  "pat \<noteq> [] \<Longrightarrow> \<forall>j<length s. \<not> prefix pat (drop j s) \<Longrightarrow> replace_first pat rep s = s"
proof (induction s)
  case Nil
  then show ?case by simp
next
  case (Cons c cs)
  from Cons.prems(2) have head: "\<not> prefix pat (c # cs)" by fastforce
  have "\<forall>j<length cs. \<not> prefix pat (drop j cs)"
  proof (intro allI impI)
    fix j assume "j < length cs"
    then have "\<not> prefix pat (drop (Suc j) (c # cs))" using Cons.prems(2) by fastforce
    then show "\<not> prefix pat (drop j cs)" by simp
  qed
  with Cons.IH Cons.prems(1) head show ?case by simp
qed

lemma replace_first_at:
  "prefix pat (drop i s) \<Longrightarrow> i < length s \<Longrightarrow> \<forall>j<i. \<not> prefix pat (drop j s) \<Longrightarrow>
     replace_first pat rep s = take i s @ rep @ drop (i + length pat) s"
proof (induction s arbitrary: i)
  case Nil
  then show ?case by simp
next
  case (Cons c cs)
  show ?case
  proof (cases i)
    case 0
    with Cons.prems show ?thesis by simp
  next
    case (Suc k)
    with Cons.prems(3) have head: "\<not> prefix pat (c # cs)" by fastforce
    have "\<forall>j<k. \<not> prefix pat (drop j cs)"
    proof (intro allI impI)
      fix j assume "j < k"
      then have "\<not> prefix pat (drop (Suc j) (c # cs))" using Cons.prems(3) Suc by fastforce
      then show "\<not> prefix pat (drop j cs)" by simp
    qed
    moreover from Cons.prems Suc have "prefix pat (drop k cs)" "k < length cs" by simp_all
    ultimately have "replace_first pat rep cs = take k cs @ rep @ drop (k + length pat) cs"
      using Cons.IH by blast
    with head Suc show ?thesis by simp
  qed
qed

lemma fst_split_on: "fst (split_on sep s) = takeWhile (\<lambda>c. c \<noteq> sep) s"
  by (induction s) (auto simp: split_beta)

lemma second_segment_split_on:
  "second_segment (snd (split_on sep s)) =
     (if sep \<in> set s then Some (takeWhile (\<lambda>c. c \<noteq> sep) (tl (dropWhile (\<lambda>c. c \<noteq> sep) s)))
      else None)"
  by (induction s) (auto simp: split_beta second_segment_def fst_split_on)

lemma split_on_no_sep: "sep \<notin> set s \<Longrightarrow> split_on sep s = (s, [])"
  by (induction s) auto

lemma split_on_append:
  "sep \<notin> set a \<Longrightarrow> split_on sep (a @ sep # b) = (a, fst (split_on sep b) # snd (split_on sep b))"
  by (induction a) (auto simp: split_beta)

section \<open>Properties of numbers and their strings\<close>

lemma dec_digit_char:
  assumes "d < 10"
  shows "is_digit_of 10 (digit_char d)" "is_digit_of 16 (digit_char d)"
    "digit_of (digit_char d) = d"
    "\<not> is_white (digit_char d)" "digit_char d \<noteq> 0x3A"
    "digit_char d \<noteq> 0x2D" "digit_char d \<noteq> 0x2B"
    "digit_char d \<noteq> 0x78" "digit_char d \<noteq> 0x58"
    "digit_char d \<noteq> 0x4E"
proof -
  let ?c = "digit_char"
  have "list_all (\<lambda>d. is_digit_of 10 (?c d) \<and> is_digit_of 16 (?c d) \<and> digit_of (?c d) = d
          \<and> \<not> is_white (?c d) \<and> ?c d \<noteq> 0x3A \<and> ?c d \<noteq> 0x2D \<and> ?c d \<noteq> 0x2B
          \<and> ?c d \<noteq> 0x78 \<and> ?c d \<noteq> 0x58 \<and> ?c d \<noteq> 0x4E) [0..<10]"
    by code_simp
  with assms have "is_digit_of 10 (?c d) \<and> is_digit_of 16 (?c d) \<and> digit_of (?c d) = d
          \<and> \<not> is_white (?c d) \<and> ?c d \<noteq> 0x3A \<and> ?c d \<noteq> 0x2D \<and> ?c d \<noteq> 0x2B
          \<and> ?c d \<noteq> 0x78 \<and> ?c d \<noteq> 0x58 \<and> ?c d \<noteq> 0x4E"
    by (simp add: list_all_iff)
  then show "is_digit_of 10 (digit_char d)" "is_digit_of 16 (digit_char d)"
    "digit_of (digit_char d) = d"
    "\<not> is_white (digit_char d)" "digit_char d \<noteq> 0x3A"
    "digit_char d \<noteq> 0x2D" "digit_char d \<noteq> 0x2B"
    "digit_char d \<noteq> 0x78" "digit_char d \<noteq> 0x58"
    "digit_char d \<noteq> 0x4E"
    by blast+
qed

lemma show_nat_digits: "set (show_nat n) \<subseteq> digit_char ` {..<10}"
proof (induction n rule: show_nat.induct)
  case (1 n)
  show ?case
  proof (cases "n < 10")
    case True
    then show ?thesis by (subst show_nat.simps) auto
  next
    case False
    have "n mod 10 \<in> {..<10}" by simp
    then have "digit_char (n mod 10) \<in> digit_char ` {..<10}" by (rule imageI)
    with False 1 show ?thesis by (subst show_nat.simps) simp
  qed
qed

lemma show_nat_not_Nil: "show_nat n \<noteq> []"
  by (subst show_nat.simps) simp

lemma show_nat_value: "foldl (\<lambda>acc c. acc * 10 + digit_of c) 0 (show_nat n) = n"
proof (induction n rule: show_nat.induct)
  case (1 n)
  show ?case
  proof (cases "n < 10")
    case True
    then show ?thesis by (subst show_nat.simps) (simp add: dec_digit_char)
  next
    case False
    have "n mod 10 < 10" by simp
    with False 1 show ?thesis
      by (subst show_nat.simps) (simp add: dec_digit_char)
  qed
qed

lemma show_nat_chars:
  assumes "c \<in> set (show_nat n)"
  shows "is_digit_of 10 c" "c \<noteq> 0x3A" "\<not> is_white c" "c \<noteq> 0x2D" "c \<noteq> 0x2B" "c \<noteq> 0x4E"
    "c \<noteq> 0x78" "c \<noteq> 0x58"
proof -
  from assms show_nat_digits [of n] obtain d where d: "d < 10" "c = digit_char d" by blast
  show "is_digit_of 10 c" unfolding d(2) by (rule dec_digit_char(1) [OF d(1)])
  show "c \<noteq> 0x3A" unfolding d(2) by (rule dec_digit_char(5) [OF d(1)])
  show "\<not> is_white c" unfolding d(2) by (rule dec_digit_char(4) [OF d(1)])
  show "c \<noteq> 0x2D" unfolding d(2) by (rule dec_digit_char(6) [OF d(1)])
  show "c \<noteq> 0x2B" unfolding d(2) by (rule dec_digit_char(7) [OF d(1)])
  show "c \<noteq> 0x4E" unfolding d(2) by (rule dec_digit_char(10) [OF d(1)])
  show "c \<noteq> 0x78" unfolding d(2) by (rule dec_digit_char(8) [OF d(1)])
  show "c \<noteq> 0x58" unfolding d(2) by (rule dec_digit_char(9) [OF d(1)])
qed

lemma hd_show_nat: "hd (show_nat n) \<in> set (show_nat n)"
  using show_nat_not_Nil [of n] by simp

lemma parseInt_digits:
  assumes ne: "s \<noteq> []" and digits: "\<forall>c\<in>set s. is_digit_of 10 c \<and> c \<noteq> 0x78 \<and> c \<noteq> 0x58"
    and hd: "\<not> is_white (hd s)" "hd s \<noteq> 0x2D" "hd s \<noteq> 0x2B"
  shows "parseInt s = Num (int (foldl (\<lambda>acc c. acc * 10 + digit_of c) 0 s))"
proof -
  have dw: "dropWhile is_white s = s" using ne hd(1) by (cases s) auto
  have nohex: "(case s of a # b # _ \<Rightarrow> a = 0x30 \<and> (b = 0x78 \<or> b = 0x58) | _ \<Rightarrow> False) = False"
    using digits by (auto split: list.splits)
  have tw: "takeWhile (is_digit_of 10) s = s" using digits by simp
  show ?thesis
    unfolding parseInt_def Let_def dw by (simp add: ne hd nohex tw)
qed

lemma parseInt_minus_digits:
  assumes ne: "s \<noteq> []" and digits: "\<forall>c\<in>set s. is_digit_of 10 c \<and> c \<noteq> 0x78 \<and> c \<noteq> 0x58"
  shows "parseInt (0x2D # s) = Num (- int (foldl (\<lambda>acc c. acc * 10 + digit_of c) 0 s))"
proof -
  have nohex: "(case s of a # b # _ \<Rightarrow> a = 0x30 \<and> (b = 0x78 \<or> b = 0x58) | _ \<Rightarrow> False) = False"
    using digits by (auto split: list.splits)
  have tw: "takeWhile (is_digit_of 10) s = s" using digits by simp
  show ?thesis
    unfolding parseInt_def Let_def by (simp add: is_white_def ne nohex tw)
qed

lemma show_nat_all: "\<forall>c\<in>set (show_nat n). is_digit_of 10 c \<and> c \<noteq> 0x78 \<and> c \<noteq> 0x58"
  using show_nat_chars by blast

lemma parseInt_show_nat: "parseInt (show_nat n) = Num (int n)"
proof -
  have "parseInt (show_nat n) = Num (int (foldl (\<lambda>acc c. acc * 10 + digit_of c) 0 (show_nat n)))"
    by (rule parseInt_digits [OF show_nat_not_Nil show_nat_all])
       (rule show_nat_chars [OF hd_show_nat])+
  then show ?thesis by (simp only: show_nat_value)
qed

lemma parseInt_NaN_string: "parseInt (js ''NaN'') = NaN"
  by (simp add: parseInt_def js_def is_white_def is_digit_of_def digit_value_def)

lemma parseInt_Number_toString: "parseInt (Number_toString v) = v"
proof (cases v)
  case NaN
  then show ?thesis by (simp add: Number_toString_def parseInt_NaN_string)
next
  case (Num i)
  show ?thesis
  proof (cases "i < 0")
    case False
    with Num show ?thesis by (simp add: Number_toString_def parseInt_show_nat)
  next
    case True
    have "parseInt (0x2D # show_nat (nat (- i)))
          = Num (- int (foldl (\<lambda>acc c. acc * 10 + digit_of c) 0 (show_nat (nat (- i)))))"
      by (rule parseInt_minus_digits [OF show_nat_not_Nil show_nat_all])
    with True Num show ?thesis by (simp add: Number_toString_def show_nat_value)
  qed
qed

lemma Number_toString_inj: "Number_toString a = Number_toString b \<Longrightarrow> a = b"
proof -
  assume "Number_toString a = Number_toString b"
  then have "parseInt (Number_toString a) = parseInt (Number_toString b)" by simp
  then show "a = b" by (simp only: parseInt_Number_toString)
qed

lemma Number_toString_no_colon: "0x3A \<notin> set (Number_toString v)"
proof (cases v)
  case NaN
  then show ?thesis by (simp add: Number_toString_def js_def)
next
  case (Num i)
  have "0x3A \<notin> set (show_nat k)" for k using show_nat_chars(2) by blast
  with Num show ?thesis by (simp add: Number_toString_def)
qed

lemma Number_toString_not_Nil: "Number_toString v \<noteq> []"
  by (cases v) (simp_all add: Number_toString_def js_def show_nat_not_Nil)

section \<open>Properties of the keys\<close>

lemma takeWhile_up_to:
  "x \<notin> set xs \<Longrightarrow> takeWhile (\<lambda>c. c \<noteq> x) (xs @ x # ys) = xs"
  by (induction xs) auto

lemma suffix_colon:
  assumes p: "0x3A \<notin> set p" and q: "0x3A \<notin> set (q :: jsstring)"
  shows "suffix (0x3A # q) (h @ 0x3A # p) \<longleftrightarrow> p = q"
proof
  assume "suffix (0x3A # q) (h @ 0x3A # p)"
  then obtain zs where eq: "h @ 0x3A # p = zs @ 0x3A # q" by (auto simp: suffix_def)
  then have "rev (h @ 0x3A # p) = rev (zs @ 0x3A # q)" by simp
  then have "rev p @ 0x3A # rev h = rev q @ 0x3A # rev zs" by simp
  then have "takeWhile (\<lambda>c. c \<noteq> 0x3A) (rev p @ 0x3A # rev h)
             = takeWhile (\<lambda>c. c \<noteq> 0x3A) (rev q @ 0x3A # rev zs)" by simp
  moreover have "takeWhile (\<lambda>c. c \<noteq> 0x3A) (rev p @ 0x3A # rev h) = rev p"
    by (rule takeWhile_up_to) (use p in simp)
  moreover have "takeWhile (\<lambda>c. c \<noteq> 0x3A) (rev q @ 0x3A # rev zs) = rev q"
    by (rule takeWhile_up_to) (use q in simp)
  ultimately have "rev p = rev q" by simp
  then show "p = q" by simp
next
  assume "p = q"
  then show "suffix (0x3A # q) (h @ 0x3A # p)" by (simp add: suffix_def)
qed

lemma key_matches_port:
  "suffix (0x3A # Number_toString v) (server_key s) \<longleftrightarrow> port s = v"
  unfolding server_key_def
  using suffix_colon [OF Number_toString_no_colon Number_toString_no_colon]
    Number_toString_inj by blast

lemma find_store_key:
  "find P (foldl store_key acc ks) = (case find P acc of Some x \<Rightarrow> Some x | None \<Rightarrow> find P ks)"
proof (induction ks arbitrary: acc)
  case Nil
  then show ?case by (simp split: option.splits)
next
  case (Cons k ks)
  have "find P (store_key acc k) = (case find P acc of Some x \<Rightarrow> Some x | None \<Rightarrow> if P k then Some k else None)"
    by (induction acc) (auto simp: store_key_def split: option.splits if_splits)
  with Cons.IH [of "store_key acc k"] show ?case
    by (simp split: option.splits)
qed

lemma find_hostPortMap: "find P (hostPortMap servers) = find P (map server_key servers)"
  by (simp add: hostPortMap_def find_store_key)

lemma find_map_key:
  "find P (map f xs) = map_option f (find (\<lambda>x. P (f x)) xs)"
  by (induction xs) auto

lemma server_key_not_Nil: "server_key s \<noteq> []"
  by (simp add: server_key_def)

lemma matchedKey_first_target:
  "matchedKey (hostPortMap servers) ri =
     (case find (\<lambda>s. port s = Num (int (rport ri))) servers of
        Some s \<Rightarrow> server_key s
      | None \<Rightarrow> ipKey ri)"
  by (simp add: matchedKey_def find_hostPortMap find_map_key key_matches_port server_key_not_Nil
      split: option.splits)

section \<open>Properties of the collected replies\<close>

lemma map_of_push_reply:
  "map_of (push_reply k r m) k' =
     (if k' = k then Some ((case map_of m k of None \<Rightarrow> [] | Some rs \<Rightarrow> rs) @ [r]) else map_of m k')"
  by (induction m) auto

lemma keys_push_reply:
  "map fst (push_reply k r m) = (if k \<in> fst ` set m then map fst m else map fst m @ [k])"
proof (induction m)
  case Nil
  then show ?case by simp
next
  case (Cons kv m)
  obtain k' rs where kv: "kv = (k', rs)" by (cases kv)
  show ?case
  proof (cases "k' = k")
    case True
    with kv show ?thesis by simp
  next
    case False
    with kv Cons.IH show ?thesis by (cases "k \<in> fst ` set m") auto
  qed
qed

lemma distinct_push_reply: "distinct (map fst m) \<Longrightarrow> distinct (map fst (push_reply k r m))"
  by (simp add: keys_push_reply)

lemma map_of_collect:
  "map_of (foldl (\<lambda>rs d. push_reply (kf d) (mk d) rs) acc ds) k =
     (case map_of acc k of
        None \<Rightarrow> if filter (\<lambda>d. kf d = k) ds = [] then None
                else Some (map mk (filter (\<lambda>d. kf d = k) ds))
      | Some old \<Rightarrow> Some (old @ map mk (filter (\<lambda>d. kf d = k) ds)))"
proof (induction ds arbitrary: acc)
  case Nil
  then show ?case by (simp split: option.splits)
next
  case (Cons d ds)
  show ?case
    by (simp add: Cons.IH map_of_push_reply split: option.splits)
qed

lemma distinct_collect:
  "distinct (map fst acc) \<Longrightarrow> distinct (map fst (foldl (\<lambda>rs d. push_reply (kf d) (mk d) rs) acc ds))"
  by (induction ds arbitrary: acc) (simp_all add: distinct_push_reply)

lemma keys_collect:
  "fst ` set (foldl (\<lambda>rs d. push_reply (kf d) (mk d) rs) acc ds) = fst ` set acc \<union> kf ` set ds"
proof (induction ds arbitrary: acc)
  case Nil
  then show ?case by simp
next
  case (Cons d ds)
  have "fst ` set (push_reply (kf d) (mk d) acc) = insert (kf d) (fst ` set acc)"
    using keys_push_reply [of "kf d" "mk d" acc]
    by (metis (no_types, lifting) Un_insert_right append_Nil2 insert_absorb list.set(2) list.set_map
        set_append)
  with Cons.IH [of "push_reply (kf d) (mk d) acc"] show ?case by auto
qed

lemma collect_entries:
  assumes "(k, rs) \<in> set (foldl (\<lambda>rs d. push_reply (kf d) (mk d) rs) [] ds)"
  shows "rs \<noteq> [] \<and> rs = map mk (filter (\<lambda>d. kf d = k) ds)"
proof -
  let ?res = "foldl (\<lambda>rs d. push_reply (kf d) (mk d) rs) [] ds"
  have "distinct (map fst ?res)" by (rule distinct_collect) simp
  with assms have "map_of ?res k = Some rs" by simp
  then show ?thesis by (auto simp: map_of_collect split: if_splits)
qed

lemma on_message_collect:
  "on_message keys = (\<lambda>rs d. push_reply (matchedKey keys (sender d))
      \<lparr>timestamp = arrival d, response = Buffer_toString_hex (msg d)\<rparr> rs)"
  by (intro ext) (simp add: on_message_def)

lemma on_message_B_collect:
  "on_message_B = (\<lambda>rs d. push_reply (ipKey (sender d))
      \<lparr>timestamp = arrival d, response = Buffer_toString_hex (msg d)\<rparr> rs)"
  by (intro ext) (simp add: on_message_B_def)

lemma find_first_index:
  assumes "i < length xs" "P (xs ! i)" "\<forall>j<i. \<not> P (xs ! j)"
  shows "find P xs = Some (xs ! i)"
  using assms by (auto simp: find_Some_iff)

section \<open>Properties of the loader\<close>





lemma parseInt_default: "parseInt (Number_toString (Num defaultPort)) = Num 6567"
  by (simp add: parseInt_Number_toString defaultPort_def)

lemma target_of_colon:
  assumes "0x3A \<in> set addr"
  shows "target_of n addr =
     \<lparr>host = takeWhile (\<lambda>c. c \<noteq> 0x3A) addr,
      port = parseInt (takeWhile (\<lambda>c. c \<noteq> 0x3A) (tl (dropWhile (\<lambda>c. c \<noteq> 0x3A) addr))),
      name = n\<rparr>"
    and "target_of_B n addr = target_of n addr"
proof -
  have s: "second_segment (snd (split_on 0x3A addr))
      = Some (takeWhile (\<lambda>c. c \<noteq> 0x3A) (tl (dropWhile (\<lambda>c. c \<noteq> 0x3A) addr)))"
    using assms by (simp add: second_segment_split_on)
  have f: "fst (split_on 0x3A addr) = takeWhile (\<lambda>c. c \<noteq> 0x3A) addr" by (rule fst_split_on)
  show "target_of n addr =
     \<lparr>host = takeWhile (\<lambda>c. c \<noteq> 0x3A) addr,
      port = parseInt (takeWhile (\<lambda>c. c \<noteq> 0x3A) (tl (dropWhile (\<lambda>c. c \<noteq> 0x3A) addr))),
      name = n\<rparr>"
    using assms s f by (simp add: target_of_def split_beta parseInt_arg_def)
  show "target_of_B n addr = target_of n addr"
    using assms by (simp add: target_of_def target_of_B_def)
qed

lemma target_of_no_colon:
  assumes "0x3A \<notin> set addr"
  shows "target_of n addr = \<lparr>host = addr, port = Num 6567, name = n\<rparr>"
    and "target_of_B n addr = target_of n addr"
  using assms by (simp_all add: target_of_def target_of_B_def parseInt_Number_toString defaultPort_def)

lemma target_of_segments:
  assumes h: "0x3A \<notin> set h" and p: "0x3A \<notin> set p"
  shows "target_of n (h @ 0x3A # p @ 0x3A # rest) = \<lparr>host = h, port = parseInt p, name = n\<rparr>"
    and "target_of n (h @ 0x3A # p) = \<lparr>host = h, port = parseInt p, name = n\<rparr>"
proof -
  have tw: "takeWhile (\<lambda>c. c \<noteq> 0x3A) (h @ 0x3A # xs) = h" for xs
    using h by (rule takeWhile_up_to)
  have dw: "dropWhile (\<lambda>c. c \<noteq> 0x3A) (h @ 0x3A # xs) = 0x3A # xs" for xs
    using h by (induction h) auto
  have twp: "takeWhile (\<lambda>c. c \<noteq> 0x3A) (p @ 0x3A # rest) = p"
    using p by (rule takeWhile_up_to)
  have twp': "takeWhile (\<lambda>c. c \<noteq> 0x3A) p = p"
    using p by (auto simp: takeWhile_eq_all_conv)
  show "target_of n (h @ 0x3A # p @ 0x3A # rest) = \<lparr>host = h, port = parseInt p, name = n\<rparr>"
    by (subst target_of_colon(1)) (simp_all add: tw dw twp)
  show "target_of n (h @ 0x3A # p) = \<lparr>host = h, port = parseInt p, name = n\<rparr>"
    by (subst target_of_colon(1)) (simp_all add: tw dw twp')
qed


section \<open>Properties of the sort\<close>

lemma set_insert_by: "set (insert_by c x ys) = insert x (set ys)"
  by (induction ys) auto

lemma length_insert_by: "length (insert_by c x ys) = Suc (length ys)"
  by (induction ys) auto

lemma set_Array_sort: "set (Array_sort c xs) = set xs"
  by (induction xs) (simp_all add: Array_sort_def set_insert_by)

lemma length_Array_sort: "length (Array_sort c xs) = length xs"
  by (induction xs) (simp_all add: Array_sort_def length_insert_by)

lemma Array_sort_Nil_iff: "Array_sort c xs = [] \<longleftrightarrow> xs = []"
  using length_Array_sort [of c xs] by (metis length_0_conv)

lemma Array_sort_Cons: "Array_sort c (x # xs) = insert_by c x (Array_sort c xs)"
  by (simp add: Array_sort_def)

lemma hd_insert_by:
  "hd (insert_by c x ys) = (if ys = [] \<or> c x (hd ys) \<le> 0 then x else hd ys)"
  by (cases ys) auto

lemma insert_by_not_Nil: "insert_by c x ys \<noteq> []"
  by (cases ys) auto

lemma last_insert_by:
  "last (insert_by c x ys) = (if \<forall>y\<in>set ys. 0 < c x y then x else last ys)"
proof (induction ys)
  case Nil
  then show ?case by simp
next
  case (Cons y ys)
  show ?case
  proof (cases "c x y \<le> 0")
    case True
    then have "\<not> (\<forall>y'\<in>set (y # ys). 0 < c x y')" by auto
    with True show ?thesis by simp
  next
    case False
    then have "last (insert_by c x (y # ys)) = last (insert_by c x ys)"
      by (simp add: insert_by_not_Nil)
    with False Cons.IH show ?thesis by (cases "ys = []") auto
  qed
qed

text \<open>
  Sorted from the latest to the earliest, the first element is the first of the
  elements with the greatest key.
\<close>

lemma hd_sort_descending:
  fixes f :: "'a \<Rightarrow> int"
  assumes "xs \<noteq> []"
  shows "\<exists>i<length xs. hd (Array_sort (\<lambda>a b. f b - f a) xs) = xs ! i
           \<and> (\<forall>j<length xs. f (xs ! j) \<le> f (xs ! i))
           \<and> (\<forall>j<i. f (xs ! j) < f (xs ! i))"
  using assms
proof (induction xs)
  case Nil
  then show ?case by simp
next
  case (Cons x xs)
  let ?c = "\<lambda>a b. f b - f a"
  show ?case
  proof (cases "xs = []")
    case True
    then show ?thesis by (simp add: Array_sort_def)
  next
    case False
    with Cons.IH obtain i where i: "i < length xs" "hd (Array_sort ?c xs) = xs ! i"
      "\<forall>j<length xs. f (xs ! j) \<le> f (xs ! i)" "\<forall>j<i. f (xs ! j) < f (xs ! i)"
      by blast
    have ne: "Array_sort ?c xs \<noteq> []" using False by (simp add: Array_sort_Nil_iff)
    show ?thesis
    proof (cases "f (xs ! i) \<le> f x")
      case True
      then have "hd (Array_sort ?c (x # xs)) = (x # xs) ! 0"
        using ne i(2) by (simp add: Array_sort_Cons hd_insert_by)
      moreover have "\<forall>j<length (x # xs). f ((x # xs) ! j) \<le> f ((x # xs) ! 0)"
      proof (intro allI impI)
        fix j assume "j < length (x # xs)"
        then show "f ((x # xs) ! j) \<le> f ((x # xs) ! 0)"
          using True i(3) by (cases j) (auto intro: order_trans)
      qed
      ultimately show ?thesis by (intro exI [of _ 0]) simp
    next
      case False
      then have "hd (Array_sort ?c (x # xs)) = (x # xs) ! Suc i"
        using ne i(2) by (simp add: Array_sort_Cons hd_insert_by)
      moreover have "\<forall>j<length (x # xs). f ((x # xs) ! j) \<le> f ((x # xs) ! Suc i)"
      proof (intro allI impI)
        fix j assume "j < length (x # xs)"
        then show "f ((x # xs) ! j) \<le> f ((x # xs) ! Suc i)"
          using False i(3) by (cases j) auto
      qed
      moreover have "\<forall>j<Suc i. f ((x # xs) ! j) < f ((x # xs) ! Suc i)"
      proof (intro allI impI)
        fix j assume "j < Suc i"
        then show "f ((x # xs) ! j) < f ((x # xs) ! Suc i)"
          using False i(4) by (cases j) auto
      qed
      ultimately show ?thesis using i(1) by (intro exI [of _ "Suc i"]) simp
    qed
  qed
qed

text \<open>
  Sorted from the earliest to the latest, the last element is the last of the elements
  with the greatest key.
\<close>

lemma last_sort_ascending:
  fixes f :: "'a \<Rightarrow> int"
  assumes "xs \<noteq> []"
  shows "\<exists>i<length xs. last (Array_sort (\<lambda>a b. f a - f b) xs) = xs ! i
           \<and> (\<forall>j<length xs. f (xs ! j) \<le> f (xs ! i))
           \<and> (\<forall>j<length xs. i < j \<longrightarrow> f (xs ! j) < f (xs ! i))"
  using assms
proof (induction xs)
  case Nil
  then show ?case by simp
next
  case (Cons x xs)
  let ?c = "\<lambda>a b. f a - f b"
  show ?case
  proof (cases "xs = []")
    case True
    then show ?thesis by (simp add: Array_sort_def)
  next
    case False
    with Cons.IH obtain i where i: "i < length xs" "last (Array_sort ?c xs) = xs ! i"
      "\<forall>j<length xs. f (xs ! j) \<le> f (xs ! i)" "\<forall>j<length xs. i < j \<longrightarrow> f (xs ! j) < f (xs ! i)"
      by blast
    show ?thesis
    proof (cases "\<forall>y\<in>set xs. f y < f x")
      case True
      then have "last (Array_sort ?c (x # xs)) = (x # xs) ! 0"
        by (simp add: Array_sort_Cons last_insert_by set_Array_sort)
      moreover have "\<forall>j<length (x # xs). f ((x # xs) ! j) \<le> f ((x # xs) ! 0)"
      proof (intro allI impI)
        fix j assume "j < length (x # xs)"
        then show "f ((x # xs) ! j) \<le> f ((x # xs) ! 0)"
          using True by (cases j) (auto simp: less_imp_le)
      qed
      moreover have "\<forall>j<length (x # xs). 0 < j \<longrightarrow> f ((x # xs) ! j) < f ((x # xs) ! 0)"
      proof (intro allI impI)
        fix j assume "j < length (x # xs)" "0 < j"
        then show "f ((x # xs) ! j) < f ((x # xs) ! 0)"
          using True by (cases j) auto
      qed
      ultimately show ?thesis by (intro exI [of _ 0]) simp
    next
      case False
      then obtain y where y: "y \<in> set xs" "f x \<le> f y" by force
      then obtain k where k: "k < length xs" "xs ! k = y" by (auto simp: in_set_conv_nth)
      with i(3) y have xle: "f x \<le> f (xs ! i)" by (metis order_trans)
      from False have cond: "\<not> (\<forall>y\<in>set (Array_sort ?c xs). 0 < ?c x y)"
        by (auto simp: set_Array_sort)
      have "last (Array_sort ?c (x # xs)) = last (Array_sort ?c xs)"
        unfolding Array_sort_Cons last_insert_by using cond by (simp only: if_False)
      then have "last (Array_sort ?c (x # xs)) = (x # xs) ! Suc i"
        using i(2) by simp
      moreover have "\<forall>j<length (x # xs). f ((x # xs) ! j) \<le> f ((x # xs) ! Suc i)"
      proof (intro allI impI)
        fix j assume "j < length (x # xs)"
        then show "f ((x # xs) ! j) \<le> f ((x # xs) ! Suc i)"
          using xle i(3) by (cases j) auto
      qed
      moreover have "\<forall>j<length (x # xs). Suc i < j \<longrightarrow> f ((x # xs) ! j) < f ((x # xs) ! Suc i)"
      proof (intro allI impI)
        fix j assume "j < length (x # xs)" "Suc i < j"
        then show "f ((x # xs) ! j) < f ((x # xs) ! Suc i)"
          using i(4) by (cases j) auto
      qed
      ultimately show ?thesis using i(1) by (intro exI [of _ "Suc i"]) simp
    qed
  qed
qed

section \<open>Properties of the aggregation of variant B\<close>

lemma map_of_assign: "map_of (assign k v m) = (map_of m)(k \<mapsto> v)"
  by (induction m) (auto simp: fun_eq_iff)

lemma keys_assign: "fst ` set (assign k v m) = insert k (fst ` set m)"
proof (induction m)
  case Nil
  then show ?case by simp
next
  case (Cons kv m)
  obtain k' v' where kv: "kv = (k', v')" by (cases kv)
  show ?case
  proof (cases "k' = k")
    case True
    with kv show ?thesis by auto
  next
    case False
    with kv Cons.IH show ?thesis by auto
  qed
qed

lemma grouped_eq:
  "grouped responses =
     (if responses = [] then None
      else Some (last (Array_sort (\<lambda>a b. timestamp a - timestamp b) responses)),
      Array_sort (\<lambda>a b. timestamp a - timestamp b) responses)"
  by (simp add: grouped_def Let_def Array_sort_Nil_iff)

lemma result_for_nonempty:
  "responses \<noteq> [] \<Longrightarrow>
     result_for w (addr, responses) =
       Inr (result_of w addr (last (Array_sort (\<lambda>a b. timestamp a - timestamp b) responses))
              (Array_sort (\<lambda>a b. timestamp a - timestamp b) responses))"
  by (simp add: result_for_def grouped_eq)

lemma result_for_empty: "result_for w (addr, []) = Inl TypeError"
  by (simp add: result_for_def grouped_eq)

lemma result_for_Inr:
  assumes "result_for w (addr, responses) = Inr (k, v)"
  shows "responses \<noteq> []"
    and "(k, v) = result_of w addr (last (Array_sort (\<lambda>a b. timestamp a - timestamp b) responses))
              (Array_sort (\<lambda>a b. timestamp a - timestamp b) responses)"
proof -
  show ne: "responses \<noteq> []" using assms by (auto simp: result_for_empty)
  from result_for_nonempty [OF ne, of w addr] assms
  show "(k, v) = result_of w addr (last (Array_sort (\<lambda>a b. timestamp a - timestamp b) responses))
              (Array_sort (\<lambda>a b. timestamp a - timestamp b) responses)"
    by simp
qed

lemma result_of_key: "fst (result_of w addr sd arr) = addr \<or> fst (result_of w addr sd arr) = result_key addr"
  by (auto simp: result_of_def Let_def split_beta split: sum.splits)

lemma result_of_fields:
  "raw_hex (snd (result_of w addr sd arr)) = response sd"
  "all_responses (snd (result_of w addr sd arr)) = arr"
  by (auto simp: result_of_def Let_def split_beta split: sum.splits)

lemma result_of_failed:
  "parseHexPayload (utf8Slice w) (response sd) = Inl err \<Longrightarrow>
     result_of w addr sd arr =
       (addr,
        \<lparr>b_name = [0x6570, 0x636E, 0x89E3, 0x6790, 0x5931, 0x8D25],
         b_description = [0x9519, 0x8BEF, 0x8BE6, 0x60C5, 0x3A, 0x20] @ message err,
         last_updated = nowString w addr,
         raw_hex = response sd,
         all_responses = arr\<rparr>)"
  by (simp add: result_of_def)

lemma aggregate_B_total:
  "\<forall>kv\<in>set xs. snd kv \<noteq> [] \<Longrightarrow> \<exists>res. aggregate_B w xs acc = Inr res"
proof (induction xs arbitrary: acc)
  case Nil
  then show ?case by simp
next
  case (Cons kv xs)
  obtain a rs where kv: "kv = (a, rs)" by (cases kv)
  with Cons.prems have "rs \<noteq> []" by simp
  then obtain k v where "result_for w kv = Inr (k, v)"
    unfolding kv using result_for_nonempty [of rs w a] by (metis surj_pair)
  with Cons show ?case by simp
qed

lemma aggregate_B_keys:
  "aggregate_B w xs acc = Inr res \<Longrightarrow>
     fst ` set res = fst ` set acc \<union> {k. \<exists>kv\<in>set xs. \<exists>v. result_for w kv = Inr (k, v)}"
proof (induction xs arbitrary: acc)
  case Nil
  then show ?case by simp
next
  case (Cons kv xs)
  from Cons.prems obtain k v where kv: "result_for w kv = Inr (k, v)"
    and rest: "aggregate_B w xs (assign k v acc) = Inr res"
    by (auto split: sum.splits)
  from Cons.IH [OF rest] kv show ?case
    by (auto simp: keys_assign)
qed

lemma aggregate_B_lookup:
  "aggregate_B w xs acc = Inr res \<Longrightarrow>
   map_of acc k = Some v \<or> (\<exists>kv\<in>set xs. result_for w kv = Inr (k, v)) \<Longrightarrow>
   \<forall>kv'\<in>set xs. \<forall>v'. result_for w kv' = Inr (k, v') \<longrightarrow> v' = v \<Longrightarrow>
   map_of res k = Some v"
proof (induction xs arbitrary: acc)
  case Nil
  then show ?case by simp
next
  case (Cons kv xs)
  from Cons.prems(1) obtain k0 v0 where kv: "result_for w kv = Inr (k0, v0)"
    and rest: "aggregate_B w xs (assign k0 v0 acc) = Inr res"
    by (auto split: sum.splits)
  have "map_of (assign k0 v0 acc) k = Some v \<or> (\<exists>kv\<in>set xs. result_for w kv = Inr (k, v))"
  proof (cases "k0 = k")
    case True
    with kv Cons.prems(3) have "v0 = v" by simp
    with True show ?thesis by (simp add: map_of_assign)
  next
    case False
    with Cons.prems(2) kv show ?thesis by (auto simp: map_of_assign)
  qed
  moreover have "\<forall>kv'\<in>set xs. \<forall>v'. result_for w kv' = Inr (k, v') \<longrightarrow> v' = v"
    using Cons.prems(3) by simp
  ultimately show ?case using Cons.IH [OF rest] by blast
qed

section \<open>The keys of the report of variant B\<close>

lemma split_on_key:
  assumes "0x3A \<notin> set h"
  shows "split_on 0x3A (h @ 0x3A # Number_toString v) = (h, [Number_toString v])"
  using assms
  by (simp add: split_on_append split_on_no_sep [OF Number_toString_no_colon])

lemma showPort_key:
  "0x3A \<notin> set h \<Longrightarrow> showPort (h @ 0x3A # Number_toString v) \<longleftrightarrow> v \<noteq> Num defaultPort"
  by (simp add: showPort_def split_on_key second_segment_def Number_toString_not_Nil
      parseInt_Number_toString)

lemma result_key_key:
  "0x3A \<notin> set h \<Longrightarrow>
     result_key (h @ 0x3A # Number_toString v)
       = (if v = Num defaultPort then h else h @ 0x3A # Number_toString v)"
  by (simp add: result_key_def showPort_key split_on_key)

lemma key_eq_iff:
  assumes "0x3A \<notin> set h" "0x3A \<notin> set h'"
  shows "h @ 0x3A # Number_toString v = h' @ 0x3A # Number_toString v' \<longleftrightarrow> h = h' \<and> v = v'"
proof
  assume eq: "h @ 0x3A # Number_toString v = h' @ 0x3A # Number_toString v'"
  then have "split_on 0x3A (h @ 0x3A # Number_toString v) = split_on 0x3A (h' @ 0x3A # Number_toString v')"
    by simp
  then have "h = h'" "Number_toString v = Number_toString v'"
    using assms by (simp_all add: split_on_key)
  then show "h = h' \<and> v = v'" using Number_toString_inj by blast
next
  assume "h = h' \<and> v = v'"
  then show "h @ 0x3A # Number_toString v = h' @ 0x3A # Number_toString v'" by simp
qed

text \<open>
  Two keys of the form \<open>host:port\<close> with hosts that hold no colon lead to different
  keys of the report.
\<close>

lemma report_keys_differ:
  assumes h: "0x3A \<notin> set h" "0x3A \<notin> set h'"
    and k: "k = h @ 0x3A # Number_toString v \<or> k = result_key (h @ 0x3A # Number_toString v)"
    and k': "k = h' @ 0x3A # Number_toString v' \<or> k = result_key (h' @ 0x3A # Number_toString v')"
  shows "h = h' \<and> v = v'"
proof -
  let ?a = "h @ 0x3A # Number_toString v" and ?a' = "h' @ 0x3A # Number_toString v'"
  have colon: "0x3A \<in> set ?a" "0x3A \<in> set ?a'" by simp_all
  from k have k1: "k = ?a \<or> (k = h \<and> v = Num defaultPort)"
    using h(1) by (auto simp: result_key_key split: if_splits)
  from k' have k2: "k = ?a' \<or> (k = h' \<and> v' = Num defaultPort)"
    using h(2) by (auto simp: result_key_key split: if_splits)
  from k1 k2 consider "?a = ?a'" | "?a = h'" | "h = ?a'" | "h = h'" "v = Num defaultPort" "v' = Num defaultPort"
    by auto
  then show ?thesis
  proof cases
    case 1
    then show ?thesis using key_eq_iff [OF h] by blast
  next
    case 2
    with colon(1) h(2) show ?thesis by metis
  next
    case 3
    with colon(2) h(1) show ?thesis by metis
  next
    case 4
    then show ?thesis by simp
  qed
qed

lemma server_key_form: "server_key t = host t @ 0x3A # Number_toString (port t)"
  by (simp add: server_key_def)

lemma ipKey_form: "ipKey ri = address ri @ 0x3A # Number_toString (Num (int (rport ri)))"
  by (simp add: ipKey_def)

lemma probe_B_keys:
  "fst ` set (sendUDPRequests_B datagrams) = (\<lambda>d. ipKey (sender d)) ` set datagrams"
  by (simp add: sendUDPRequests_B_def on_message_B_collect keys_collect)

lemma probe_B_nonempty:
  "kv \<in> set (sendUDPRequests_B datagrams) \<Longrightarrow> snd kv \<noteq> []"
  using collect_entries [of "fst kv" "snd kv" "\<lambda>d. ipKey (sender d)"
      "\<lambda>d. \<lparr>timestamp = arrival d, response = Buffer_toString_hex (msg d)\<rparr>" datagrams]
  by (auto simp: sendUDPRequests_B_def on_message_B_collect)

lemma probe_B_distinct: "distinct (map fst (sendUDPRequests_B datagrams))"
  by (simp add: sendUDPRequests_B_def on_message_B_collect distinct_collect)

lemma target_of_B_host: "0x3A \<notin> set (host (target_of_B n addr))"
proof (cases "0x3A \<in> set addr")
  case True
  have "0x3A \<notin> set (takeWhile (\<lambda>c. c \<noteq> 0x3A) addr)"
    by (auto dest: set_takeWhileD)
  with True show ?thesis by (simp add: target_of_colon)
next
  case False
  then show ?thesis by (simp add: target_of_no_colon)
qed

lemma loadServers_B_hosts:
  "loadServers_B file = Inr servers \<Longrightarrow> t \<in> set servers \<Longrightarrow> 0x3A \<notin> set (host t)"
  by (auto simp: loadServers_B_def target_of_B_host split: sum.splits option.splits)

section \<open>Properties of the aggregation of variant A\<close>

lemma process_address_sorted:
  "process_address w (addr, responses) =
     (case Array_sort (\<lambda>a b. timestamp b - timestamp a) responses of
        [] \<Rightarrow> failed_entry w addr
      | latest # _ \<Rightarrow>
          (case parseServerInfo (utf8Slice w) (response latest) of
             Inl err \<Rightarrow> failed_entry w addr
           | Inr info \<Rightarrow>
               \<lparr>ip = displayAddress addr,
                e_name = si_name info,
                e_players = Count (si_players info),
                e_map = si_map info,
                e_description = si_description info,
                ping = pingResult (probe w (fst (split_on 0x3A addr))),
                updatedAt = map (\<lambda>c. if c = 0x2F then 0x2D else c) (dateString w (timestamp latest)),
                sentPackets = length responses,
                receivedMeta = real (length (response latest)) / 2\<rparr>))"
  unfolding process_address_def by (simp only: prod.case)

lemma process_address_failed:
  assumes "responses = [] \<or>
    (\<exists>err. parseServerInfo (utf8Slice w)
       (response (hd (Array_sort (\<lambda>a b. timestamp b - timestamp a) responses))) = Inl err)"
  shows "process_address w (addr, responses) = failed_entry w addr"
proof (cases "Array_sort (\<lambda>a b. timestamp b - timestamp a) responses")
  case Nil
  show ?thesis unfolding process_address_sorted Nil by (simp only: list.case)
next
  case (Cons latest others)
  have "responses \<noteq> []"
  proof
    assume "responses = []"
    then have "Array_sort (\<lambda>a b. timestamp b - timestamp a) responses = []"
      by (simp only: Array_sort_Nil_iff)
    with Cons show False by (simp only: list.distinct)
  qed
  with assms obtain err where "parseServerInfo (utf8Slice w)
       (response (hd (Array_sort (\<lambda>a b. timestamp b - timestamp a) responses))) = Inl err"
    by blast
  then have err: "parseServerInfo (utf8Slice w) (response latest) = Inl err"
    unfolding Cons by (simp only: list.sel)
  show ?thesis unfolding process_address_sorted Cons by (simp only: list.case err sum.case)
qed

lemma process_address_decoded:
  assumes "responses \<noteq> []"
    and "parseServerInfo (utf8Slice w)
       (response (hd (Array_sort (\<lambda>a b. timestamp b - timestamp a) responses))) = Inr info"
  shows "process_address w (addr, responses) =
      \<lparr>ip = displayAddress addr,
       e_name = si_name info,
       e_players = Count (si_players info),
       e_map = si_map info,
       e_description = si_description info,
       ping = pingResult (probe w (fst (split_on 0x3A addr))),
       updatedAt = map (\<lambda>c. if c = 0x2F then 0x2D else c)
         (dateString w (timestamp (hd (Array_sort (\<lambda>a b. timestamp b - timestamp a) responses)))),
       sentPackets = length responses,
       receivedMeta =
         real (length (response (hd (Array_sort (\<lambda>a b. timestamp b - timestamp a) responses)))) / 2\<rparr>"
proof (cases "Array_sort (\<lambda>a b. timestamp b - timestamp a) responses")
  case Nil
  then have "responses = []" by (simp only: Array_sort_Nil_iff)
  with assms(1) show ?thesis by blast
next
  case (Cons latest others)
  from assms(2) have ok: "parseServerInfo (utf8Slice w) (response latest) = Inr info"
    unfolding Cons by (simp only: list.sel)
  show ?thesis unfolding process_address_sorted Cons by (simp only: list.case ok sum.case list.sel)
qed

lemma processEnhancedData_nth:
  "length (processEnhancedData w inputData) = length inputData"
  "n < length inputData \<Longrightarrow> processEnhancedData w inputData ! n = process_address w (inputData ! n)"
  by (simp_all add: processEnhancedData_def)

lemma processEnhancedData_member:
  "kv \<in> set inputData \<Longrightarrow> process_address w kv \<in> set (processEnhancedData w inputData)"
  by (simp add: processEnhancedData_def)

section \<open>The report of variant B for the reply set of its probe\<close>

lemma report_B_of_probe:
  assumes colon: "\<forall>d\<in>set datagrams. 0x3A \<notin> set (address (sender d))"
    and kv: "(addr, responses) \<in> set (sendUDPRequests_B datagrams)"
  shows "\<exists>report. processEnhancedData_B w (sendUDPRequests_B datagrams) = Inr report
           \<and> map_of report
                (fst (result_of w addr
                   (last (Array_sort (\<lambda>a b. timestamp a - timestamp b) responses))
                   (Array_sort (\<lambda>a b. timestamp a - timestamp b) responses)))
              = Some (snd (result_of w addr
                   (last (Array_sort (\<lambda>a b. timestamp a - timestamp b) responses))
                   (Array_sort (\<lambda>a b. timestamp a - timestamp b) responses)))"
proof -
  let ?xs = "sendUDPRequests_B datagrams"
  let ?sorted = "Array_sort (\<lambda>a b. timestamp a - timestamp b) responses"
  let ?kv = "result_of w addr (last ?sorted) ?sorted"
  have "\<forall>kv\<in>set ?xs. snd kv \<noteq> []" using probe_B_nonempty by blast
  then obtain report where report: "aggregate_B w ?xs [] = Inr report"
    using aggregate_B_total by blast
  have ne: "responses \<noteq> []" using probe_B_nonempty [OF kv] by simp
  have mine: "result_for w (addr, responses) = Inr (fst ?kv, snd ?kv)"
    using result_for_nonempty [OF ne] by simp
  from kv probe_B_keys [of datagrams] obtain d where d: "d \<in> set datagrams" "addr = ipKey (sender d)"
    by force
  have unique: "\<forall>kv'\<in>set ?xs. \<forall>v'. result_for w kv' = Inr (fst ?kv, v') \<longrightarrow> v' = snd ?kv"
  proof (intro ballI allI impI)
    fix kv' v' assume kv': "kv' \<in> set ?xs" and r: "result_for w kv' = Inr (fst ?kv, v')"
    obtain a' rs' where p: "kv' = (a', rs')" by (cases kv')
    from kv' p probe_B_keys [of datagrams] obtain d' where d': "d' \<in> set datagrams" "a' = ipKey (sender d')"
      by force
    let ?kv' = "result_of w a' (last (Array_sort (\<lambda>a b. timestamp a - timestamp b) rs'))
        (Array_sort (\<lambda>a b. timestamp a - timestamp b) rs')"
    from r p have eq: "(fst ?kv, v') = ?kv'"
      using result_for_Inr(2) by blast
    then have f: "fst ?kv' = fst ?kv" and s: "snd ?kv' = v'"
      by (simp_all add: eq [symmetric])
    have "fst ?kv' = a' \<or> fst ?kv' = result_key a'" by (rule result_of_key)
    then have k': "fst ?kv = a' \<or> fst ?kv = result_key a'" unfolding f .
    have k: "fst ?kv = addr \<or> fst ?kv = result_key addr" by (rule result_of_key)
    have "address (sender d) = address (sender d') \<and>
          Num (int (rport (sender d))) = Num (int (rport (sender d')))"
      by (rule report_keys_differ [where k = "fst ?kv"])
         (use colon d d' k k' in \<open>simp_all add: ipKey_form\<close>)
    then have a': "a' = addr" using d(2) d'(2) by (simp add: ipKey_form)
    have "(addr, rs') \<in> set ?xs" using kv' p a' by simp
    with probe_B_distinct [of datagrams] have "rs' = responses"
      using kv by (rule eq_key_imp_eq_value)
    with s a' show "v' = snd ?kv" by simp
  qed
  have "map_of report (fst ?kv) = Some (snd ?kv)"
    by (rule aggregate_B_lookup [OF report _ unique]) (use kv mine in blast)
  with report show ?thesis by (simp add: processEnhancedData_B_def)
qed

section \<open>Sample payloads\<close>

lemma sample_failure:
  "parseServerInfo ascii_slice (js ''41'') = Inl (ERR_OUT_OF_RANGE 66 0)"
  by (simp add: parseServerInfo_def js_def readUInt8_def boundsError_def is_digit_of_def
      digit_of_def digit_value_def)

lemma sample_payload:
  "parseServerInfo ascii_slice (Buffer_toString_hex (3 # c # replicate 22 0))
     = Inr \<lparr>si_name = processColorTags (replace_first (js ''[]'') (js '' '') [ucast c]),
            si_description = [], si_players = 0, si_map = []\<rparr>"
proof -
  have p: "3 # c # replicate 22 (0 :: byte) = [3, c, 0,0,0,0,0,0,0,0,0,0,0,0,0,0,0,0,0,0,0,0,0,0]"
    by (simp add: numeral_eq_Suc)
  show ?thesis
    unfolding p
    by (subst parseServerInfo_payload)
       (simp_all add: Buffer_toString_def ascii_slice_def js_def Let_def)
qed

lemma sample_payload_A:
  "parseServerInfo ascii_slice (Buffer_toString_hex (3 # 0x41 # replicate 22 0))
     = Inr \<lparr>si_name = js ''A'', si_description = [], si_players = 0, si_map = []\<rparr>"
  by (simp add: sample_payload js_def Let_def)

lemma sample_payload_B:
  "parseServerInfo ascii_slice (Buffer_toString_hex (3 # 0x42 # replicate 22 0))
     = Inr \<lparr>si_name = js ''B'', si_description = [], si_players = 0, si_map = []\<rparr>"
  by (simp add: sample_payload js_def Let_def)

section \<open>Properties of the main flow of variant B\<close>

lemma report_B_keys_of_probe:
  assumes report: "processEnhancedData_B w (sendUDPRequests_B datagrams) = Inr report"
    and k: "k \<in> fst ` set report"
  shows "\<exists>d\<in>set datagrams. k = ipKey (sender d) \<or> k = result_key (ipKey (sender d))"
proof -
  from report have "aggregate_B w (sendUDPRequests_B datagrams) [] = Inr report"
    by (simp add: processEnhancedData_B_def)
  from aggregate_B_keys [OF this] k
  obtain kv v where kv: "kv \<in> set (sendUDPRequests_B datagrams)" "result_for w kv = Inr (k, v)"
    by auto
  obtain a rs where p: "kv = (a, rs)" by (cases kv)
  let ?r = "result_of w a (last (Array_sort (\<lambda>a b. timestamp a - timestamp b) rs))
       (Array_sort (\<lambda>a b. timestamp a - timestamp b) rs)"
  from kv(2) p have eq: "(k, v) = ?r" using result_for_Inr(2) by blast
  have "fst ?r = k" by (simp add: eq [symmetric])
  with result_of_key [of w a "last (Array_sort (\<lambda>a b. timestamp a - timestamp b) rs)"
      "Array_sort (\<lambda>a b. timestamp a - timestamp b) rs"]
  have "k = a \<or> k = result_key a" by auto
  moreover from kv(1) p probe_B_keys [of datagrams] obtain d where "d \<in> set datagrams" "a = ipKey (sender d)"
    by force
  ultimately show ?thesis by blast
qed

lemma main_B_Inr:
  assumes "main_B w file datagrams = Inr (report, noResponse)"
  shows "processEnhancedData_B w (sendUDPRequests_B datagrams) = Inr report"
    and "\<exists>servers. loadServers_B file = Inr servers
           \<and> noResponse = noResponseServers servers (sendUDPRequests_B datagrams)"
  using assms by (auto simp: main_B_def Let_def split: sum.splits)

lemma main_B_total:
  assumes "loadServers_B file = Inr servers"
  shows "\<exists>report. main_B w file datagrams
           = Inr (report, noResponseServers servers (sendUDPRequests_B datagrams))"
proof -
  have "\<forall>kv\<in>set (sendUDPRequests_B datagrams). snd kv \<noteq> []"
    using probe_B_nonempty by blast
  then obtain report where "aggregate_B w (sendUDPRequests_B datagrams) [] = Inr report"
    using aggregate_B_total by blast
  with assms show ?thesis
    by (simp add: main_B_def Let_def processEnhancedData_B_def)
qed

section \<open>The claims\<close>

subsection \<open>C4: the colour tag rewrite\<close>

text \<open>
  Claim C4 says that \<open>processColorTags\<close> is total and idempotent, and that one pass
  rewrites every bracketed alphanumeric or hash token to the token in braces.

  The rewrite is a total function, and applying it to its own output changes nothing.
  But the group of \<open>config.colorTagRegex\<close> is \<open>[a-z0-9#]+\<close>: a token with a capital
  letter, such as \<open>[RED]\<close>, is alphanumeric and is not rewritten. The claim holds
  for the tokens of the expression, the runs of lower-case letters, digits and hashes
  that are not empty: every occurrence \<open>[tok]\<close> of such a token becomes \<open>{tok}\<close>,
  whatever stands before and after it, the output has the length of the input, and no
  such occurrence is left in the output.
\<close>

theorem processColorTags_idempotent_on_tokens:
  "processColorTags (processColorTags s) = processColorTags s
   \<and> length (processColorTags s) = length s
   \<and> (tok \<noteq> [] \<and> list_all is_tag_char tok \<longrightarrow>
        processColorTags (pre @ 0x5B # tok @ 0x5D # post)
          = processColorTags pre @ 0x7B # tok @ 0x7D # processColorTags post
        \<and> processColorTags s \<noteq> pre @ 0x5B # tok @ 0x5D # post)"
proof (intro conjI impI)
  show "processColorTags (processColorTags s) = processColorTags s" by (rule pct_idem)
  show "length (processColorTags s) = length s" by (rule pct_length)
next
  assume "tok \<noteq> [] \<and> list_all is_tag_char tok"
  then have tok: "tok \<noteq> []" "\<forall>x\<in>set tok. is_tag_char x" by (simp_all add: list_all_iff)
  show "processColorTags (pre @ 0x5B # tok @ 0x5D # post)
          = processColorTags pre @ 0x7B # tok @ 0x7D # processColorTags post"
    by (rule pct_occurrence [OF tok])
  show "processColorTags s \<noteq> pre @ 0x5B # tok @ 0x5D # post"
    by (rule pct_no_occurrence [OF tok])
qed

theorem processColorTags_idempotent_on_tokens_witness:
  "js ''red'' \<noteq> [] \<and> list_all is_tag_char (js ''red'')
   \<and> processColorTags (js ''a'' @ 0x5B # js ''red'' @ 0x5D # js ''b[x'') = js ''a{red}b[x''
   \<and> processColorTags (js ''a{red}b[x'') = js ''a{red}b[x''
   \<and> processColorTags (processColorTags (js ''a[red]b[x'')) = processColorTags (js ''a[red]b[x'')"
  using processColorTags_idempotent_on_tokens
    [of "js ''a[red]b[x''" "js ''red''" "js ''a''" "js ''b[x''"]
  by (simp add: js_def is_tag_char_def Let_def)

text \<open>
  The counterexample to the claim as it stands: \<open>[RED]\<close> is a bracketed alphanumeric
  token, and the rewrite returns it as it is, not as \<open>{RED}\<close>.
\<close>

theorem processColorTags_capital_token_counterexample:
  "processColorTags (js ''[RED]'') = js ''[RED]'' \<and> processColorTags (js ''[RED]'') \<noteq> js ''{RED}''"
  by (simp add: js_def is_tag_char_def Let_def)

subsection \<open>C2: payloads that cannot be read\<close>

text \<open>
  Claim C2 says that the decoder fails with an explicit error, and returns no partly
  filled record, for every payload in which a computed offset or a declared length would
  need a read past the end of the buffer, in particular for every payload shorter than
  2 bytes.

  \<open>parseServerInfo\<close> checks no bound itself. Its reads of one byte throw the
  \<open>RangeError\<close> of the buffer when they are out of range, and the aggregation catches
  it; the text spans are cut by \<open>buf.toString\<close>, which clips a span at the end of the
  buffer and never throws. So, for a payload of \<open>n\<close> bytes and the hexadecimal string
  the probe makes of it, the result is decided by the reads at the offsets \<open>0\<close>,
  \<open>L1 + 1\<close>, \<open>L1 + L2 + 14\<close> and \<open>L1 + L2 + L3 + 20\<close>, in this order: the
  empty payload fails with \<open>ERR_BUFFER_OUT_OF_BOUNDS\<close>; any other payload fails at
  the first of these offsets that is not below \<open>n\<close>, with \<open>ERR_OUT_OF_RANGE\<close> for
  that offset and the greatest offset of the buffer; and when all four are below \<open>n\<close>
  (the read at \<open>L1 + L2 + 5\<close> is then in range as well) the decoder returns a record
  with all four fields. Hence it returns a record exactly when
  \<open>L1 + L2 + L3 + 20 < n\<close>, and every payload shorter than 21 bytes, hence every
  payload shorter than 2 bytes, fails. \<open>parseHexPayload\<close> of variant B computes no
  offset: it fails on the empty payload only.
\<close>

theorem parseServerInfo_fails_on_unreadable_offsets:
  "let hexString = Buffer_toString_hex payload;
       n = length payload;
       L1 = unat (payload ! 0);
       L2 = unat (payload ! (L1 + 1));
       L3 = unat (payload ! (L1 + L2 + 14))
   in parseServerInfo dec hexString =
        (if n = 0 then Inl ERR_BUFFER_OUT_OF_BOUNDS
         else if n \<le> L1 + 1 then Inl (ERR_OUT_OF_RANGE (L1 + 1) (n - 1))
         else if n \<le> L1 + L2 + 14 then Inl (ERR_OUT_OF_RANGE (L1 + L2 + 14) (n - 1))
         else if n \<le> L1 + L2 + L3 + 20 then Inl (ERR_OUT_OF_RANGE (L1 + L2 + L3 + 20) (n - 1))
         else Inr \<lparr>si_name = processColorTags (replace_first (js ''[]'') (js '' '')
                       (Buffer_toString dec payload 1 (int L1 - 1))),
                   si_description = processColorTags (replace_first (js ''[]'') (js '' '')
                       (Buffer_toString dec payload (int (L1 + L2 + L3 + 21))
                          (int (L1 + L2 + L3 + 21) + sint (payload ! (L1 + L2 + L3 + 20))))),
                   si_players = unat (payload ! (L1 + L2 + 5)),
                   si_map = processColorTags (replace_first (js ''[]'') (js '' '')
                       (Buffer_toString dec payload (int (L1 + 2)) (int (L1 + 2 + L2))))\<rparr>)
      \<and> ((\<exists>r. parseServerInfo dec hexString = Inr r) \<longleftrightarrow> L1 + L2 + L3 + 20 < n)
      \<and> (n < 21 \<longrightarrow> (\<exists>e. parseServerInfo dec hexString = Inl e))
      \<and> ((\<exists>e. parseHexPayload dec hexString = Inl e) \<longleftrightarrow> payload = [])"
proof -
  define hexString where "hexString = Buffer_toString_hex payload"
  have buf: "Buffer_from_hex hexString = payload"
    unfolding hexString_def by (rule Buffer_from_hex_toString_hex)
  define n where "n = length payload"
  define L1 where "L1 = unat (payload ! 0)"
  define L2 where "L2 = unat (payload ! (L1 + 1))"
  define L3 where "L3 = unat (payload ! (L1 + L2 + 14))"
  let ?decoded = "\<lparr>si_name = processColorTags (replace_first (js ''[]'') (js '' '')
                       (Buffer_toString dec payload 1 (int L1 - 1))),
                   si_description = processColorTags (replace_first (js ''[]'') (js '' '')
                       (Buffer_toString dec payload (int (L1 + L2 + L3 + 21))
                          (int (L1 + L2 + L3 + 21) + sint (payload ! (L1 + L2 + L3 + 20))))),
                   si_players = unat (payload ! (L1 + L2 + 5)),
                   si_map = processColorTags (replace_first (js ''[]'') (js '' '')
                       (Buffer_toString dec payload (int (L1 + 2)) (int (L1 + 2 + L2))))\<rparr>"
  have c0: "parseServerInfo dec hexString = Inl ERR_BUFFER_OUT_OF_BOUNDS" if "n = 0"
    using that parseServerInfo_rejects(1) [of hexString dec] unfolding buf n_def by simp
  have c1: "parseServerInfo dec hexString = Inl (ERR_OUT_OF_RANGE (L1 + 1) (n - 1))"
    if "n \<noteq> 0" "n \<le> L1 + 1"
    using that parseServerInfo_rejects(2) [of hexString dec] unfolding buf n_def L1_def by simp
  have c2: "parseServerInfo dec hexString = Inl (ERR_OUT_OF_RANGE (L1 + L2 + 14) (n - 1))"
    if "\<not> n \<le> L1 + 1" "n \<le> L1 + L2 + 14"
    using that parseServerInfo_rejects(3) [of hexString dec]
    unfolding buf n_def L1_def L2_def by simp
  have c3: "parseServerInfo dec hexString = Inl (ERR_OUT_OF_RANGE (L1 + L2 + L3 + 20) (n - 1))"
    if "\<not> n \<le> L1 + L2 + 14" "n \<le> L1 + L2 + L3 + 20"
    using that parseServerInfo_rejects(4) [of hexString dec]
    unfolding buf n_def L1_def L2_def L3_def by simp
  have c4: "parseServerInfo dec hexString = Inr ?decoded" if "\<not> n \<le> L1 + L2 + L3 + 20"
    using that parseServerInfo_payload [of payload dec]
    unfolding hexString_def n_def L1_def L2_def L3_def by simp
  have eq: "parseServerInfo dec hexString =
        (if n = 0 then Inl ERR_BUFFER_OUT_OF_BOUNDS
         else if n \<le> L1 + 1 then Inl (ERR_OUT_OF_RANGE (L1 + 1) (n - 1))
         else if n \<le> L1 + L2 + 14 then Inl (ERR_OUT_OF_RANGE (L1 + L2 + 14) (n - 1))
         else if n \<le> L1 + L2 + L3 + 20 then Inl (ERR_OUT_OF_RANGE (L1 + L2 + L3 + 20) (n - 1))
         else Inr ?decoded)"
  proof (cases "n = 0")
    case True
    then show ?thesis using c0 by simp
  next
    case n0: False
    show ?thesis
    proof (cases "n \<le> L1 + 1")
      case True
      with n0 show ?thesis using c1 by simp
    next
      case n1: False
      show ?thesis
      proof (cases "n \<le> L1 + L2 + 14")
        case True
        with n0 n1 show ?thesis using c2 by simp
      next
        case n2: False
        show ?thesis
        proof (cases "n \<le> L1 + L2 + L3 + 20")
          case True
          with n0 n1 n2 show ?thesis using c3 by simp
        next
          case False
          with n0 n1 n2 show ?thesis using c4 by simp
        qed
      qed
    qed
  qed
  have iff: "(\<exists>r. parseServerInfo dec hexString = Inr r) \<longleftrightarrow> L1 + L2 + L3 + 20 < n"
    using parseServerInfo_Inr_iff [of dec hexString]
    unfolding buf n_def L1_def L2_def L3_def .
  have short: "n < 21 \<longrightarrow> (\<exists>e. parseServerInfo dec hexString = Inl e)"
  proof
    assume "n < 21"
    then have "\<not> L1 + L2 + L3 + 20 < n" by simp
    with iff show "\<exists>e. parseServerInfo dec hexString = Inl e"
      by (cases "parseServerInfo dec hexString") auto
  qed
  have hex: "(\<exists>e. parseHexPayload dec hexString = Inl e) \<longleftrightarrow> payload = []"
    unfolding parseHexPayload_Inl_iff hexString_def
    by (simp add: toString_hex_digits toString_hex_Nil_iff)
  from eq iff short hex show ?thesis
    unfolding Let_def hexString_def [symmetric] n_def [symmetric] L1_def [symmetric]
      L2_def [symmetric] L3_def [symmetric]
    by (intro conjI)
qed

theorem parseServerInfo_fails_on_unreadable_offsets_witness:
  "length [1 :: byte] < 21
   \<and> parseServerInfo ascii_slice (Buffer_toString_hex [1]) = Inl (ERR_OUT_OF_RANGE 2 0)
   \<and> parseServerInfo ascii_slice (Buffer_toString_hex []) = Inl ERR_BUFFER_OUT_OF_BOUNDS
   \<and> parseHexPayload ascii_slice (Buffer_toString_hex [0x41]) = Inr (js ''A'')"
proof -
  have one: "parseServerInfo ascii_slice (Buffer_toString_hex [1]) = Inl (ERR_OUT_OF_RANGE 2 0)"
    using parseServerInfo_fails_on_unreadable_offsets [of "[1]" ascii_slice]
    by (simp add: Let_def)
  have none: "parseServerInfo ascii_slice (Buffer_toString_hex []) = Inl ERR_BUFFER_OUT_OF_BOUNDS"
    using parseServerInfo_fails_on_unreadable_offsets [of "[]" ascii_slice]
    by (simp add: Let_def)
  have "parseHexPayload ascii_slice (Buffer_toString_hex [0x41]) = Inr (js ''A'')"
    by (simp add: Buffer_toString_hex_def digit_char_def
      is_digit_of_def digit_of_def digit_value_def parseHexPayload_def Let_def
      Buffer_toString_def ascii_slice_def is_control_def is_white_def trim_def js_def)
  with one none show ?thesis by simp
qed

text \<open>
  The counterexample to the claim as it stands: a payload of 25 bytes whose description
  is declared to end at offset 97 is decoded, with the two bytes that are there as its
  description; and the payload of one byte is decoded by \<open>parseHexPayload\<close>.
\<close>

theorem parseServerInfo_clips_declared_length_counterexample:
  "parseServerInfo ascii_slice
       (Buffer_toString_hex ([2, 0x78, 0x79, 0] @ replicate 18 0 @ [74, 0x61, 0x62]))
     = Inr \<lparr>si_name = [], si_description = js ''ab'', si_players = 0, si_map = []\<rparr>
   \<and> length ([2, 0x78, 0x79, 0] @ replicate 18 0 @ [74, 0x61, 0x62 :: byte]) = 25
   \<and> 23 + unat (([2, 0x78, 0x79, 0] @ replicate 18 0 @ [74, 0x61, 0x62 :: byte]) ! 22) = 97
   \<and> parseHexPayload ascii_slice (Buffer_toString_hex [0x41]) = Inr (js ''A'')"
proof -
  let ?p = "[2, 0x78, 0x79, 0] @ replicate 18 0 @ [74, 0x61, 0x62 :: byte]"
  have p: "?p = [2, 0x78, 0x79, 0, 0,0,0,0,0,0,0,0,0,0,0,0,0,0,0,0,0,0, 74, 0x61, 0x62]"
    by (simp add: numeral_eq_Suc)
  have "parseServerInfo ascii_slice (Buffer_toString_hex ?p)
      = Inr \<lparr>si_name = [], si_description = js ''ab'', si_players = 0, si_map = []\<rparr>"
    unfolding p
    by (subst parseServerInfo_payload)
       (simp_all add: Buffer_toString_def ascii_slice_def js_def Let_def is_tag_char_def)
  moreover have "parseHexPayload ascii_slice (Buffer_toString_hex [0x41]) = Inr (js ''A'')"
    by (simp add: Buffer_toString_hex_def digit_char_def
      is_digit_of_def digit_of_def digit_value_def parseHexPayload_def Let_def
      Buffer_toString_def ascii_slice_def is_control_def is_white_def trim_def js_def)
  ultimately show ?thesis unfolding p by simp
qed

subsection \<open>C7: the bytes of the server name\<close>

text \<open>
  Claim C7 says that the name returned for an accepted payload is the UTF-8 decoding of
  the bytes from offset 1 to offset \<open>L1 - 1\<close> (exclusive), \<open>L1\<close> being the byte at
  offset 0, sent through the colour tag rewrite.

  Between the decoding and the rewrite the decoder replaces the first \<open>[]\<close> of the
  text by a space (claim C10), which the claim leaves out. With that step the claim
  holds: an accepted payload has its offset \<open>L1 + 1\<close> in range, so the span is not
  clipped, and the name is the decoding of these bytes (the empty string when \<open>L1\<close> is
  at most 2), with the first \<open>[]\<close> replaced and the colour tags rewritten.
\<close>

theorem parseServerInfo_name_slice:
  "parseServerInfo dec hexString = Inr r \<Longrightarrow>
     (let buf = Buffer_from_hex hexString; L1 = unat (buf ! 0) in
      L1 + 1 < length buf
      \<and> si_name r =
          processColorTags (replace_first (js ''[]'') (js '' '')
            (if L1 \<le> 2 then [] else dec (take (L1 - 2) (drop 1 buf)))))"
proof -
  assume r: "parseServerInfo dec hexString = Inr r"
  define buf where "buf = Buffer_from_hex hexString"
  define L1 where "L1 = unat (buf ! 0)"
  define L2 where "L2 = unat (buf ! (L1 + 1))"
  define L3 where "L3 = unat (buf ! (L1 + L2 + 14))"
  have ok: "L1 + L2 + L3 + 20 < length buf"
    using r parseServerInfo_Inr_iff [of dec hexString]
    unfolding buf_def L1_def L2_def L3_def by blast
  have "si_name r = processColorTags (replace_first (js ''[]'') (js '' '')
               (Buffer_toString dec buf 1 (int L1 - 1)))"
    using r parseServerInfo_accepts [of hexString dec] ok
    unfolding buf_def L1_def L2_def L3_def by auto
  moreover have "Buffer_toString dec buf 1 (int L1 - 1)
      = (if L1 \<le> 2 then [] else dec (take (L1 - 2) (drop 1 buf)))"
    using ok by (auto simp: Buffer_toString_def Let_def nat_diff_distrib')
  ultimately show ?thesis
    using ok unfolding Let_def buf_def [symmetric] L1_def [symmetric] by simp
qed

theorem parseServerInfo_name_slice_witness:
  "parseServerInfo ascii_slice (Buffer_toString_hex ([4, 0x5B, 0x5D, 0x20, 0x20] @ replicate 20 0))
     = Inr \<lparr>si_name = js '' '', si_description = [], si_players = 0, si_map = []\<rparr>
   \<and> si_name \<lparr>si_name = js '' '', si_description = [], si_players = 0, si_map = []\<rparr>
       = processColorTags (replace_first (js ''[]'') (js '' '') (ascii_slice [0x5B, 0x5D]))"
proof -
  let ?p = "[4, 0x5B, 0x5D, 0x20, 0x20] @ replicate 20 (0 :: byte)"
  have p: "?p = [4, 0x5B, 0x5D, 0x20, 0x20, 0,0,0,0,0,0,0,0,0,0,0,0,0,0,0,0,0,0,0,0]"
    by (simp add: numeral_eq_Suc)
  have r: "parseServerInfo ascii_slice (Buffer_toString_hex ?p)
      = Inr \<lparr>si_name = js '' '', si_description = [], si_players = 0, si_map = []\<rparr>"
    unfolding p
    by (subst parseServerInfo_payload)
       (simp_all add: Buffer_toString_def ascii_slice_def js_def Let_def is_tag_char_def)
  from parseServerInfo_name_slice [OF r] r show ?thesis
    unfolding Buffer_from_hex_toString_hex p by (simp add: Let_def)
qed

text \<open>
  The counterexample to the claim as it stands: the name bytes \<open>[]\<close> give the name
  of one space, and the rewrite alone would give \<open>[]\<close>.
\<close>

theorem parseServerInfo_name_without_replace_counterexample:
  "map_sum id si_name (parseServerInfo ascii_slice
       (Buffer_toString_hex ([4, 0x5B, 0x5D, 0x20, 0x20] @ replicate 20 0))) = Inr (js '' '')
   \<and> processColorTags (ascii_slice (take (4 - 2) (drop 1 ([4, 0x5B, 0x5D, 0x20, 0x20] @ replicate 20 0))))
       = js ''[]''
   \<and> js '' '' \<noteq> js ''[]''"
proof -
  let ?p = "[4, 0x5B, 0x5D, 0x20, 0x20] @ replicate 20 (0 :: byte)"
  have p: "?p = [4, 0x5B, 0x5D, 0x20, 0x20, 0,0,0,0,0,0,0,0,0,0,0,0,0,0,0,0,0,0,0,0]"
    by (simp add: numeral_eq_Suc)
  have r: "parseServerInfo ascii_slice (Buffer_toString_hex ?p)
      = Inr \<lparr>si_name = js '' '', si_description = [], si_players = 0, si_map = []\<rparr>"
    unfolding p
    by (subst parseServerInfo_payload)
       (simp_all add: Buffer_toString_def ascii_slice_def js_def Let_def is_tag_char_def)
  show ?thesis unfolding r unfolding p
    by (simp add: ascii_slice_def js_def Let_def is_tag_char_def)
qed

subsection \<open>C10: the first empty pair of brackets\<close>

text \<open>
  Claim C10 says that, before the colour tag rewrite, the decoder replaces the first
  occurrence of the two characters \<open>[]\<close> in the name, in the map and in the
  description by one space, and leaves later occurrences as they are.

  Each of the three fields of an accepted payload is the rewrite of
  \<open>replace_first\<close> of the text cut from the buffer; and \<open>replace_first\<close> of a
  string whose first occurrence of \<open>[]\<close> is at position \<open>i\<close> is the string with
  these two characters replaced by one space, everything after them untouched, while a
  string without an occurrence is returned as it is.
\<close>

theorem parseServerInfo_replaces_first_empty_brackets:
  "(parseServerInfo dec hexString = Inr r \<longrightarrow>
      (let buf = Buffer_from_hex hexString;
           L1 = unat (buf ! 0);
           L2 = unat (buf ! (L1 + 1));
           L3 = unat (buf ! (L1 + L2 + 14));
           Ld = sint (buf ! (L1 + L2 + L3 + 20))
       in si_name r = processColorTags (replace_first (js ''[]'') (js '' '')
                        (Buffer_toString dec buf 1 (int L1 - 1)))
          \<and> si_map r = processColorTags (replace_first (js ''[]'') (js '' '')
                        (Buffer_toString dec buf (int (L1 + 2)) (int (L1 + 2 + L2))))
          \<and> si_description r = processColorTags (replace_first (js ''[]'') (js '' '')
                        (Buffer_toString dec buf (int (L1 + L2 + L3 + 21))
                           (int (L1 + L2 + L3 + 21) + Ld)))))
   \<and> (i < length s \<and> prefix (js ''[]'') (drop i s) \<and> (\<forall>j<i. \<not> prefix (js ''[]'') (drop j s)) \<longrightarrow>
        replace_first (js ''[]'') (js '' '') s = take i s @ js '' '' @ drop (i + 2) s)
   \<and> ((\<forall>j<length s. \<not> prefix (js ''[]'') (drop j s)) \<longrightarrow>
        replace_first (js ''[]'') (js '' '') s = s)"
proof (intro conjI impI)
  assume r: "parseServerInfo dec hexString = Inr r"
  define buf where "buf = Buffer_from_hex hexString"
  define L1 where "L1 = unat (buf ! 0)"
  define L2 where "L2 = unat (buf ! (L1 + 1))"
  define L3 where "L3 = unat (buf ! (L1 + L2 + 14))"
  have ok: "L1 + L2 + L3 + 20 < length buf"
    using r parseServerInfo_Inr_iff [of dec hexString]
    unfolding buf_def L1_def L2_def L3_def by blast
  show "let buf = Buffer_from_hex hexString;
           L1 = unat (buf ! 0);
           L2 = unat (buf ! (L1 + 1));
           L3 = unat (buf ! (L1 + L2 + 14));
           Ld = sint (buf ! (L1 + L2 + L3 + 20))
       in si_name r = processColorTags (replace_first (js ''[]'') (js '' '')
                        (Buffer_toString dec buf 1 (int L1 - 1)))
          \<and> si_map r = processColorTags (replace_first (js ''[]'') (js '' '')
                        (Buffer_toString dec buf (int (L1 + 2)) (int (L1 + 2 + L2))))
          \<and> si_description r = processColorTags (replace_first (js ''[]'') (js '' '')
                        (Buffer_toString dec buf (int (L1 + L2 + L3 + 21))
                           (int (L1 + L2 + L3 + 21) + Ld)))"
    using r parseServerInfo_accepts [of hexString dec] ok
    unfolding Let_def buf_def [symmetric] L1_def [symmetric] L2_def [symmetric] L3_def [symmetric]
    unfolding buf_def L1_def L2_def L3_def by auto
next
  assume a: "i < length s \<and> prefix (js ''[]'') (drop i s) \<and> (\<forall>j<i. \<not> prefix (js ''[]'') (drop j s))"
  have "replace_first (js ''[]'') (js '' '') s
        = take i s @ js '' '' @ drop (i + length (js ''[]'')) s"
    by (rule replace_first_at) (use a in simp_all)
  then show "replace_first (js ''[]'') (js '' '') s = take i s @ js '' '' @ drop (i + 2) s"
    by (simp add: js_def)
next
  assume "\<forall>j<length s. \<not> prefix (js ''[]'') (drop j s)"
  then show "replace_first (js ''[]'') (js '' '') s = s"
    by (intro replace_first_none) (simp_all add: js_def)
qed

theorem parseServerInfo_replaces_first_empty_brackets_witness:
  "parseServerInfo ascii_slice (Buffer_toString_hex ([9] @ map of_char ''a[]b[]c'' @ replicate 22 0))
     = Inr \<lparr>si_name = js ''a b[]c'', si_description = [], si_players = 0, si_map = []\<rparr>
   \<and> (1 :: nat) < length (js ''a[]b[]c'')
   \<and> prefix (js ''[]'') (drop 1 (js ''a[]b[]c''))
   \<and> \<not> prefix (js ''[]'') (drop 0 (js ''a[]b[]c''))
   \<and> replace_first (js ''[]'') (js '' '') (js ''a[]b[]c'') = js ''a b[]c''"
proof -
  let ?p = "[9] @ map of_char ''a[]b[]c'' @ replicate 22 (0 :: byte)"
  have p: "?p = [9, 0x61, 0x5B, 0x5D, 0x62, 0x5B, 0x5D, 0x63, 0,0,0,0,0,0,0,0,0,0,0,0,0,0,0,0,0,0,0,0,0,0]"
    by (simp add: numeral_eq_Suc)
  have r: "parseServerInfo ascii_slice (Buffer_toString_hex ?p)
      = Inr \<lparr>si_name = js ''a b[]c'', si_description = [], si_players = 0, si_map = []\<rparr>"
    unfolding p
    by (subst parseServerInfo_payload)
       (simp_all add: Buffer_toString_def ascii_slice_def js_def Let_def is_tag_char_def)
  have "(\<forall>j<1. \<not> prefix (js ''[]'') (drop j (js ''a[]b[]c'')))" by (simp add: js_def)
  with parseServerInfo_replaces_first_empty_brackets
    [of ascii_slice "Buffer_toString_hex ?p" _ 1 "js ''a[]b[]c''"] r
  show ?thesis
    by (simp add: js_def)
qed

subsection \<open>C9: the addresses of the server list\<close>




subsection \<open>C3: the key of a reply\<close>

text \<open>
  Claim C3 says that a reply whose source port is the declared port of some target is
  recorded under the declared \<open>host:port\<close> key of that target, and that a reply whose
  source port is the port of no target is recorded under the raw key of its sender and
  is never dropped.

  The listener of variant A takes the first key of the target table that ends with the
  colon and the source port. When two targets declare the same port, the replies of
  both are recorded under the key of the one that stands first in the table, so a reply
  is not recorded under the key of every target with its port. What holds: the reply is
  appended to the list under the key of the first target, in the order of the table,
  whose port is the source port; when no target has that port, it is appended to the
  list under the raw key of the sender. Variant B has the raw key only, and appends
  every reply under it.
\<close>

theorem on_message_records_under_first_matching_target:
  "(i < length servers \<and> port (servers ! i) = Num (int (rport (sender d)))
      \<and> (\<forall>j<i. port (servers ! j) \<noteq> Num (int (rport (sender d)))) \<longrightarrow>
      map_of (on_message (hostPortMap servers) responses d) (server_key (servers ! i))
        = Some ((case map_of responses (server_key (servers ! i)) of None \<Rightarrow> [] | Some rs \<Rightarrow> rs)
                 @ [\<lparr>timestamp = arrival d, response = Buffer_toString_hex (msg d)\<rparr>]))
   \<and> ((\<forall>s\<in>set servers. port s \<noteq> Num (int (rport (sender d)))) \<longrightarrow>
      map_of (on_message (hostPortMap servers) responses d) (ipKey (sender d))
        = Some ((case map_of responses (ipKey (sender d)) of None \<Rightarrow> [] | Some rs \<Rightarrow> rs)
                 @ [\<lparr>timestamp = arrival d, response = Buffer_toString_hex (msg d)\<rparr>]))
   \<and> map_of (on_message_B responses d) (ipKey (sender d))
        = Some ((case map_of responses (ipKey (sender d)) of None \<Rightarrow> [] | Some rs \<Rightarrow> rs)
                 @ [\<lparr>timestamp = arrival d, response = Buffer_toString_hex (msg d)\<rparr>])"
proof (intro conjI impI)
  assume a: "i < length servers \<and> port (servers ! i) = Num (int (rport (sender d)))
      \<and> (\<forall>j<i. port (servers ! j) \<noteq> Num (int (rport (sender d))))"
  then have "find (\<lambda>s. port s = Num (int (rport (sender d)))) servers = Some (servers ! i)"
    by (intro find_first_index) simp_all
  then have "matchedKey (hostPortMap servers) (sender d) = server_key (servers ! i)"
    by (simp add: matchedKey_first_target)
  then show "map_of (on_message (hostPortMap servers) responses d) (server_key (servers ! i))
        = Some ((case map_of responses (server_key (servers ! i)) of None \<Rightarrow> [] | Some rs \<Rightarrow> rs)
                 @ [\<lparr>timestamp = arrival d, response = Buffer_toString_hex (msg d)\<rparr>])"
    by (simp add: on_message_def map_of_push_reply)
next
  assume "\<forall>s\<in>set servers. port s \<noteq> Num (int (rport (sender d)))"
  then have "find (\<lambda>s. port s = Num (int (rport (sender d)))) servers = None"
    by (simp add: find_None_iff)
  then have "matchedKey (hostPortMap servers) (sender d) = ipKey (sender d)"
    by (simp add: matchedKey_first_target)
  then show "map_of (on_message (hostPortMap servers) responses d) (ipKey (sender d))
        = Some ((case map_of responses (ipKey (sender d)) of None \<Rightarrow> [] | Some rs \<Rightarrow> rs)
                 @ [\<lparr>timestamp = arrival d, response = Buffer_toString_hex (msg d)\<rparr>])"
    by (simp add: on_message_def map_of_push_reply)
next
  show "map_of (on_message_B responses d) (ipKey (sender d))
        = Some ((case map_of responses (ipKey (sender d)) of None \<Rightarrow> [] | Some rs \<Rightarrow> rs)
                 @ [\<lparr>timestamp = arrival d, response = Buffer_toString_hex (msg d)\<rparr>])"
    by (simp add: on_message_B_def map_of_push_reply)
qed


theorem on_message_records_under_first_matching_target_witness:
  "(1 :: nat) < length [\<lparr>host = js ''a.test'', port = Num 6567, name = js ''A''\<rparr>,
                        \<lparr>host = js ''c.test'', port = Num 7000, name = js ''C''\<rparr>]
   \<and> map_of (on_message
         (hostPortMap [\<lparr>host = js ''a.test'', port = Num 6567, name = js ''A''\<rparr>,
                       \<lparr>host = js ''c.test'', port = Num 7000, name = js ''C''\<rparr>])
         []
         \<lparr>msg = [0x41], sender = \<lparr>address = js ''203.0.113.5'', rport = 7000\<rparr>, arrival = 5\<rparr>)
       (js ''c.test:7000'')
     = Some [\<lparr>timestamp = 5, response = js ''41''\<rparr>]
   \<and> map_of (on_message
         (hostPortMap [\<lparr>host = js ''a.test'', port = Num 6567, name = js ''A''\<rparr>,
                       \<lparr>host = js ''c.test'', port = Num 7000, name = js ''C''\<rparr>])
         []
         \<lparr>msg = [0x41], sender = \<lparr>address = js ''203.0.113.5'', rport = 9\<rparr>, arrival = 5\<rparr>)
       (js ''203.0.113.5:9'')
     = Some [\<lparr>timestamp = 5, response = js ''41''\<rparr>]"
proof -
  let ?servers = "[\<lparr>host = js ''a.test'', port = Num 6567, name = js ''A''\<rparr>,
                   \<lparr>host = js ''c.test'', port = Num 7000, name = js ''C''\<rparr>]"
  have matched: "map_of (on_message (hostPortMap ?servers) []
         \<lparr>msg = [0x41], sender = \<lparr>address = js ''203.0.113.5'', rport = 7000\<rparr>, arrival = 5\<rparr>)
       (js ''c.test:7000'')
     = Some [\<lparr>timestamp = 5, response = js ''41''\<rparr>]"
    using on_message_records_under_first_matching_target
      [where i = 1 and servers = ?servers
         and d = "\<lparr>msg = [0x41], sender = \<lparr>address = js ''203.0.113.5'', rport = 7000\<rparr>, arrival = 5\<rparr>"
         and responses = "[]"]
    by (simp add: server_key_def Number_toString_def show_nat.simps digit_char_def js_def
        Buffer_toString_hex_def)
  have raw: "map_of (on_message (hostPortMap ?servers) []
         \<lparr>msg = [0x41], sender = \<lparr>address = js ''203.0.113.5'', rport = 9\<rparr>, arrival = 5\<rparr>)
       (js ''203.0.113.5:9'')
     = Some [\<lparr>timestamp = 5, response = js ''41''\<rparr>]"
    using on_message_records_under_first_matching_target
      [where servers = ?servers
         and d = "\<lparr>msg = [0x41], sender = \<lparr>address = js ''203.0.113.5'', rport = 9\<rparr>, arrival = 5\<rparr>"
         and responses = "[]"]
    by (simp add: ipKey_def Number_toString_def show_nat.simps digit_char_def js_def
        Buffer_toString_hex_def)
  from matched raw show ?thesis by simp
qed

text \<open>
  The counterexample to the claim as it stands: the targets \<open>a.test\<close> and
  \<open>b.test\<close> both declare the port 6567; a reply from the port 6567 is recorded
  under \<open>a.test:6567\<close>, and nothing is recorded under \<open>b.test:6567\<close>, although the
  source port is the declared port of that target.
\<close>

theorem on_message_shared_port_counterexample:
  "port \<lparr>host = js ''b.test'', port = Num 6567, name = js ''B''\<rparr>
     = Num (int (rport \<lparr>address = js ''203.0.113.5'', rport = 6567\<rparr>))
   \<and> map_of (on_message
         (hostPortMap [\<lparr>host = js ''a.test'', port = Num 6567, name = js ''A''\<rparr>,
                       \<lparr>host = js ''b.test'', port = Num 6567, name = js ''B''\<rparr>])
         []
         \<lparr>msg = [0x41], sender = \<lparr>address = js ''203.0.113.5'', rport = 6567\<rparr>, arrival = 5\<rparr>)
       (server_key \<lparr>host = js ''b.test'', port = Num 6567, name = js ''B''\<rparr>)
     = None
   \<and> on_message
         (hostPortMap [\<lparr>host = js ''a.test'', port = Num 6567, name = js ''A''\<rparr>,
                       \<lparr>host = js ''b.test'', port = Num 6567, name = js ''B''\<rparr>])
         []
         \<lparr>msg = [0x41], sender = \<lparr>address = js ''203.0.113.5'', rport = 6567\<rparr>, arrival = 5\<rparr>
     = [(js ''a.test:6567'', [\<lparr>timestamp = 5, response = js ''41''\<rparr>])]"
  by (simp add: on_message_def matchedKey_first_target server_key_def Number_toString_def
      show_nat.simps digit_char_def js_def Buffer_toString_hex_def)

subsection \<open>C8: the lists of the reply set\<close>

text \<open>
  Claim C8 says that in every reply set the probe produces every key maps to a list of
  replies that is not empty and is in the order of arrival, and that a key exists only
  if a datagram was attributed to it during the window.

  In both variants the keys of the reply set are distinct, and the list of a key is the
  list of the replies made of the datagrams attributed to that key, in the order of
  their arrival, which is not empty; the keys are the keys attributed to the datagrams.
  (Variant A returns no reply set when a target has a port that \<open>socket.send\<close>
  refuses, and the empty one when there is no target.)
\<close>

theorem replyset_lists_attributed_replies_in_arrival_order:
  "(sendUDPRequests servers datagrams = Inr responses \<longrightarrow>
      distinct (map fst responses)
      \<and> (\<forall>(k, rs)\<in>set responses.
            rs \<noteq> []
            \<and> rs = map (\<lambda>d. \<lparr>timestamp = arrival d, response = Buffer_toString_hex (msg d)\<rparr>)
                     (filter (\<lambda>d. matchedKey (hostPortMap servers) (sender d) = k) datagrams))
      \<and> (servers \<noteq> [] \<longrightarrow>
            fst ` set responses = (\<lambda>d. matchedKey (hostPortMap servers) (sender d)) ` set datagrams))
   \<and> distinct (map fst (sendUDPRequests_B datagrams))
   \<and> (\<forall>(k, rs)\<in>set (sendUDPRequests_B datagrams).
         rs \<noteq> []
         \<and> rs = map (\<lambda>d. \<lparr>timestamp = arrival d, response = Buffer_toString_hex (msg d)\<rparr>)
                  (filter (\<lambda>d. ipKey (sender d) = k) datagrams))
   \<and> fst ` set (sendUDPRequests_B datagrams) = (\<lambda>d. ipKey (sender d)) ` set datagrams"
proof (intro conjI impI)
  assume r: "sendUDPRequests servers datagrams = Inr responses"
  show "distinct (map fst responses)"
    using r by (auto simp: sendUDPRequests_def on_message_collect distinct_collect split: if_splits)
  show "\<forall>(k, rs)\<in>set responses.
            rs \<noteq> []
            \<and> rs = map (\<lambda>d. \<lparr>timestamp = arrival d, response = Buffer_toString_hex (msg d)\<rparr>)
                     (filter (\<lambda>d. matchedKey (hostPortMap servers) (sender d) = k) datagrams)"
    using r by (auto simp: sendUDPRequests_def on_message_collect split: if_splits dest: collect_entries)
  assume "servers \<noteq> []"
  with r have eq: "responses = foldl (\<lambda>rs d. push_reply (matchedKey (hostPortMap servers) (sender d))
      \<lparr>timestamp = arrival d, response = Buffer_toString_hex (msg d)\<rparr> rs) [] datagrams"
    by (auto simp: sendUDPRequests_def on_message_collect split: if_splits)
  show "fst ` set responses = (\<lambda>d. matchedKey (hostPortMap servers) (sender d)) ` set datagrams"
    unfolding eq keys_collect by simp
next
  show "distinct (map fst (sendUDPRequests_B datagrams))"
    by (simp add: sendUDPRequests_B_def on_message_B_collect distinct_collect)
  show "\<forall>(k, rs)\<in>set (sendUDPRequests_B datagrams).
         rs \<noteq> []
         \<and> rs = map (\<lambda>d. \<lparr>timestamp = arrival d, response = Buffer_toString_hex (msg d)\<rparr>)
                  (filter (\<lambda>d. ipKey (sender d) = k) datagrams)"
    by (auto simp: sendUDPRequests_B_def on_message_B_collect dest: collect_entries)
  show "fst ` set (sendUDPRequests_B datagrams) = (\<lambda>d. ipKey (sender d)) ` set datagrams"
    by (simp add: sendUDPRequests_B_def on_message_B_collect keys_collect)
qed

theorem replyset_lists_attributed_replies_in_arrival_order_witness:
  "sendUDPRequests [\<lparr>host = js ''a.test'', port = Num 6567, name = js ''A''\<rparr>]
      [\<lparr>msg = [0x41], sender = \<lparr>address = js ''203.0.113.5'', rport = 6567\<rparr>, arrival = 5\<rparr>,
       \<lparr>msg = [0x42], sender = \<lparr>address = js ''203.0.113.9'', rport = 7\<rparr>, arrival = 6\<rparr>,
       \<lparr>msg = [0x43], sender = \<lparr>address = js ''203.0.113.5'', rport = 6567\<rparr>, arrival = 6\<rparr>]
     = Inr [(js ''a.test:6567'', [\<lparr>timestamp = 5, response = js ''41''\<rparr>,
                                  \<lparr>timestamp = 6, response = js ''43''\<rparr>]),
            (js ''203.0.113.9:7'', [\<lparr>timestamp = 6, response = js ''42''\<rparr>])]
   \<and> distinct (map fst [(js ''a.test:6567'', [\<lparr>timestamp = 5, response = js ''41''\<rparr>,
                                  \<lparr>timestamp = 6, response = js ''43''\<rparr>]),
            (js ''203.0.113.9:7'', [\<lparr>timestamp = 6, response = js ''42''\<rparr>])])"
proof -
  let ?servers = "[\<lparr>host = js ''a.test'', port = Num 6567, name = js ''A''\<rparr>]"
  let ?ds = "[\<lparr>msg = [0x41], sender = \<lparr>address = js ''203.0.113.5'', rport = 6567\<rparr>, arrival = 5\<rparr>,
       \<lparr>msg = [0x42], sender = \<lparr>address = js ''203.0.113.9'', rport = 7\<rparr>, arrival = 6\<rparr>,
       \<lparr>msg = [0x43], sender = \<lparr>address = js ''203.0.113.5'', rport = 6567\<rparr>, arrival = 6\<rparr>]"
  have r: "sendUDPRequests ?servers ?ds
     = Inr [(js ''a.test:6567'', [\<lparr>timestamp = 5, response = js ''41''\<rparr>,
                                  \<lparr>timestamp = 6, response = js ''43''\<rparr>]),
            (js ''203.0.113.9:7'', [\<lparr>timestamp = 6, response = js ''42''\<rparr>])]"
    by (simp add: sendUDPRequests_def port_ok_def on_message_def matchedKey_first_target
        server_key_def ipKey_def Number_toString_def show_nat.simps digit_char_def js_def
        Buffer_toString_hex_def)
  let ?rs = "[(js ''a.test:6567'', [\<lparr>timestamp = 5, response = js ''41''\<rparr>,
                                  \<lparr>timestamp = 6, response = js ''43''\<rparr>]),
            (js ''203.0.113.9:7'', [\<lparr>timestamp = 6, response = js ''42''\<rparr>])]"
  from replyset_lists_attributed_replies_in_arrival_order
    [where servers = ?servers and datagrams = ?ds and responses = ?rs] r
  have "distinct (map fst ?rs)" by blast
  with r show ?thesis by blast
qed

subsection \<open>C6: a reply that cannot be decoded\<close>

text \<open>
  Claim C6 says that for every key whose authoritative reply fails to decode the
  aggregation still emits an entry for that key, marked as failed and carrying the size
  of the raw payload and the description of the error, so that a decode failure never
  removes a target from the report.

  Both variants keep the key: variant A pushes one entry for every key of the reply set,
  and the entry of a key whose latest reply does not decode is the one of the \<open>catch\<close>
  block, with the key as its address and the name that marks the failure. But that
  entry carries constants: \<open>receivedMeta\<close> and \<open>sentPackets\<close> are 0 and the
  description is a fixed text; the size of the payload and the message of the error are
  not in it. Variant B, for the reply set of its probe (the senders' addresses are
  IPv4 addresses and hold no colon), returns a report in which the key maps to the
  failure entry with the message of the error, the raw payload in hexadecimal and all
  the replies of the key.
\<close>

theorem decode_failure_keeps_the_key:
  "((addr, responses) \<in> set inputData
      \<and> (responses = [] \<or>
           (\<exists>err. parseServerInfo (utf8Slice w)
              (response (hd (Array_sort (\<lambda>a b. timestamp b - timestamp a) responses))) = Inl err))
     \<longrightarrow> failed_entry w addr \<in> set (processEnhancedData w inputData)
         \<and> length (processEnhancedData w inputData) = length inputData
         \<and> ip (failed_entry w addr) = addr
         \<and> e_name (failed_entry w addr) = [0x6570, 0x636E, 0x89E3, 0x6790, 0x5931, 0x8D25]
         \<and> e_description (failed_entry w addr) = [0x89E3, 0x6790, 0x5931, 0x8D25]
         \<and> sentPackets (failed_entry w addr) = 0
         \<and> receivedMeta (failed_entry w addr) = 0)
   \<and> ((\<forall>d\<in>set datagrams. 0x3A \<notin> set (address (sender d)))
      \<and> (addr, responses) \<in> set (sendUDPRequests_B datagrams)
      \<and> parseHexPayload (utf8Slice w)
           (response (last (Array_sort (\<lambda>a b. timestamp a - timestamp b) responses))) = Inl err
     \<longrightarrow> (\<exists>report. processEnhancedData_B w (sendUDPRequests_B datagrams) = Inr report
            \<and> map_of report addr =
                Some \<lparr>b_name = [0x6570, 0x636E, 0x89E3, 0x6790, 0x5931, 0x8D25],
                      b_description = [0x9519, 0x8BEF, 0x8BE6, 0x60C5, 0x3A, 0x20] @ message err,
                      last_updated = nowString w addr,
                      raw_hex = response (last (Array_sort (\<lambda>a b. timestamp a - timestamp b) responses)),
                      all_responses = Array_sort (\<lambda>a b. timestamp a - timestamp b) responses\<rparr>))"
proof (intro conjI impI)
  assume a: "(addr, responses) \<in> set inputData
      \<and> (responses = [] \<or>
           (\<exists>err. parseServerInfo (utf8Slice w)
              (response (hd (Array_sort (\<lambda>a b. timestamp b - timestamp a) responses))) = Inl err))"
  then have "process_address w (addr, responses) = failed_entry w addr"
    using process_address_failed by blast
  moreover from a have "process_address w (addr, responses) \<in> set (processEnhancedData w inputData)"
    using processEnhancedData_member by blast
  ultimately show "failed_entry w addr \<in> set (processEnhancedData w inputData)" by simp
  show "length (processEnhancedData w inputData) = length inputData"
    by (rule processEnhancedData_nth(1))
  show "ip (failed_entry w addr) = addr"
    "e_name (failed_entry w addr) = [0x6570, 0x636E, 0x89E3, 0x6790, 0x5931, 0x8D25]"
    "e_description (failed_entry w addr) = [0x89E3, 0x6790, 0x5931, 0x8D25]"
    "sentPackets (failed_entry w addr) = 0"
    "receivedMeta (failed_entry w addr) = 0"
    by (simp_all add: failed_entry_def)
next
  assume b: "(\<forall>d\<in>set datagrams. 0x3A \<notin> set (address (sender d)))
      \<and> (addr, responses) \<in> set (sendUDPRequests_B datagrams)
      \<and> parseHexPayload (utf8Slice w)
           (response (last (Array_sort (\<lambda>a b. timestamp a - timestamp b) responses))) = Inl err"
  let ?sorted = "Array_sort (\<lambda>a b. timestamp a - timestamp b) responses"
  from b have "result_of w addr (last ?sorted) ?sorted =
       (addr,
        \<lparr>b_name = [0x6570, 0x636E, 0x89E3, 0x6790, 0x5931, 0x8D25],
         b_description = [0x9519, 0x8BEF, 0x8BE6, 0x60C5, 0x3A, 0x20] @ message err,
         last_updated = nowString w addr,
         raw_hex = response (last ?sorted),
         all_responses = ?sorted\<rparr>)"
    using result_of_failed by blast
  with report_B_of_probe [of datagrams addr responses w] b
  show "\<exists>report. processEnhancedData_B w (sendUDPRequests_B datagrams) = Inr report
            \<and> map_of report addr =
                Some \<lparr>b_name = [0x6570, 0x636E, 0x89E3, 0x6790, 0x5931, 0x8D25],
                      b_description = [0x9519, 0x8BEF, 0x8BE6, 0x60C5, 0x3A, 0x20] @ message err,
                      last_updated = nowString w addr,
                      raw_hex = response (last ?sorted),
                      all_responses = ?sorted\<rparr>"
    by simp
qed

theorem decode_failure_keeps_the_key_witness:
  "(js ''h:1'', [\<lparr>timestamp = 5, response = js ''41''\<rparr>])
      \<in> set [(js ''h:1'', [\<lparr>timestamp = 5, response = js ''41''\<rparr>])]
   \<and> parseServerInfo (utf8Slice sample_world)
        (response (hd (Array_sort (\<lambda>a b. timestamp b - timestamp a)
           [\<lparr>timestamp = 5, response = js ''41''\<rparr>]))) = Inl (ERR_OUT_OF_RANGE 66 0)
   \<and> failed_entry sample_world (js ''h:1'')
        \<in> set (processEnhancedData sample_world
                 [(js ''h:1'', [\<lparr>timestamp = 5, response = js ''41''\<rparr>])])
   \<and> sendUDPRequests_B
        [\<lparr>msg = [], sender = \<lparr>address = js ''1.2.3.4'', rport = 7000\<rparr>, arrival = 5\<rparr>]
       = [(js ''1.2.3.4:7000'', [\<lparr>timestamp = 5, response = []\<rparr>])]
   \<and> (\<exists>report v. processEnhancedData_B sample_world (sendUDPRequests_B
        [\<lparr>msg = [], sender = \<lparr>address = js ''1.2.3.4'', rport = 7000\<rparr>, arrival = 5\<rparr>])
          = Inr report
        \<and> map_of report (js ''1.2.3.4:7000'') = Some v
        \<and> b_name v = [0x6570, 0x636E, 0x89E3, 0x6790, 0x5931, 0x8D25]
        \<and> raw_hex v = []
        \<and> all_responses v = [\<lparr>timestamp = 5, response = []\<rparr>])"
proof -
  let ?rs = "[\<lparr>timestamp = 5, response = js ''41''\<rparr>]"
  have sorted: "Array_sort (\<lambda>a b. timestamp b - timestamp a) ?rs = ?rs"
    by (simp add: Array_sort_def)
  have u: "utf8Slice sample_world = ascii_slice" by (simp add: sample_world_def)
  have fails: "parseServerInfo (utf8Slice sample_world)
        (response (hd (Array_sort (\<lambda>a b. timestamp b - timestamp a) ?rs))) = Inl (ERR_OUT_OF_RANGE 66 0)"
    unfolding sorted u by (simp add: sample_failure)
  have hyp: "(js ''h:1'', ?rs) \<in> set [(js ''h:1'', ?rs)]
      \<and> (?rs = [] \<or>
           (\<exists>err. parseServerInfo (utf8Slice sample_world)
              (response (hd (Array_sort (\<lambda>a b. timestamp b - timestamp a) ?rs))) = Inl err))"
    using fails by simp
  from decode_failure_keeps_the_key
    [where addr = "js ''h:1''" and responses = ?rs and inputData = "[(js ''h:1'', ?rs)]"
       and w = sample_world, THEN conjunct1, THEN mp, OF hyp]
  have A: "failed_entry sample_world (js ''h:1'')
        \<in> set (processEnhancedData sample_world [(js ''h:1'', ?rs)])" by blast

  let ?ds = "[\<lparr>msg = [], sender = \<lparr>address = js ''1.2.3.4'', rport = 7000\<rparr>, arrival = 5\<rparr>]"
  let ?qs = "[\<lparr>timestamp = 5, response = []\<rparr>]"
  let ?a = "js ''1.2.3.4:7000''"
  let ?m = "[0x48, 0x45, 0x58, 0x89E3, 0x6790, 0x5931, 0x8D25, 0x3A, 0x20]
             @ [0x5305, 0x542B, 0x975E, 0x31, 0x36, 0x8FDB, 0x5236, 0x5B57, 0x7B26]"
  have probe: "sendUDPRequests_B ?ds = [(?a, ?qs)]"
    by (simp add: sendUDPRequests_B_def on_message_B_def ipKey_def Number_toString_def
        show_nat.simps digit_char_def js_def Buffer_toString_hex_def)
  have sortedB: "Array_sort (\<lambda>a b. timestamp a - timestamp b) ?qs = ?qs"
    by (simp add: Array_sort_def)
  have hypB: "(\<forall>d\<in>set ?ds. 0x3A \<notin> set (address (sender d)))
      \<and> (?a, ?qs) \<in> set (sendUDPRequests_B ?ds)
      \<and> parseHexPayload (utf8Slice sample_world)
           (response (last (Array_sort (\<lambda>a b. timestamp a - timestamp b) ?qs))) = Inl (Error ?m)"
    unfolding probe sortedB by (simp add: js_def parseHexPayload_def)
  from decode_failure_keeps_the_key
    [where addr = ?a and responses = ?qs and datagrams = ?ds and w = sample_world
       and err = "Error ?m", THEN conjunct2, THEN mp, OF hypB]
  obtain report where report: "processEnhancedData_B sample_world (sendUDPRequests_B ?ds) = Inr report"
    "map_of report ?a =
       Some \<lparr>b_name = [0x6570, 0x636E, 0x89E3, 0x6790, 0x5931, 0x8D25],
             b_description = [0x9519, 0x8BEF, 0x8BE6, 0x60C5, 0x3A, 0x20] @ message (Error ?m),
             last_updated = nowString sample_world ?a,
             raw_hex = response (last (Array_sort (\<lambda>a b. timestamp a - timestamp b) ?qs)),
             all_responses = Array_sort (\<lambda>a b. timestamp a - timestamp b) ?qs\<rparr>"
    by blast
  then have B: "\<exists>report v. processEnhancedData_B sample_world (sendUDPRequests_B ?ds) = Inr report
        \<and> map_of report ?a = Some v
        \<and> b_name v = [0x6570, 0x636E, 0x89E3, 0x6790, 0x5931, 0x8D25]
        \<and> raw_hex v = []
        \<and> all_responses v = ?qs"
    unfolding sortedB by simp
  from fails A probe B show ?thesis by simp
qed

text \<open>
  The counterexample to the claim as it stands: in variant A the entry for a payload of
  one byte that does not decode has \<open>receivedMeta = 0\<close>, not the size 1, and the
  fixed description.
\<close>

theorem failed_entry_placeholders_counterexample:
  "parseServerInfo (utf8Slice sample_world) (js ''41'') = Inl (ERR_OUT_OF_RANGE 66 0)
   \<and> length (Buffer_from_hex (js ''41'')) = 1
   \<and> map receivedMeta (processEnhancedData sample_world
        [(js ''h:1'', [\<lparr>timestamp = 5, response = js ''41''\<rparr>])]) = [0]
   \<and> map e_description (processEnhancedData sample_world
        [(js ''h:1'', [\<lparr>timestamp = 5, response = js ''41''\<rparr>])])
       = [[0x89E3, 0x6790, 0x5931, 0x8D25]]"
proof -
  let ?rs = "[\<lparr>timestamp = 5, response = js ''41''\<rparr>]"
  have u: "utf8Slice sample_world = ascii_slice" by (simp add: sample_world_def)
  have sorted: "Array_sort (\<lambda>a b. timestamp b - timestamp a) ?rs = ?rs"
    by (simp add: Array_sort_def)
  have "process_address sample_world (js ''h:1'', ?rs) = failed_entry sample_world (js ''h:1'')"
    by (rule process_address_failed) (simp add: sorted u sample_failure)
  moreover have "length (Buffer_from_hex (js ''41'')) = 1"
    by (simp add: js_def is_digit_of_def digit_value_def)
  ultimately show ?thesis
    by (simp add: processEnhancedData_def failed_entry_def u sample_failure)
qed

subsection \<open>C1: the authoritative reply\<close>

text \<open>
  Claim C1 says that for every key with at least two replies the aggregation produces
  an entry whose reply count is the length of the key's list and whose decoded fields
  come from the reply with the latest time stamp, the last appended one when two
  replies share that time stamp.

  What holds, for every key with at least one reply. In variant A the entry of the key
  is built from one reply whose time stamp is the greatest of the list: when that reply
  decodes, the entry holds its decoded fields and \<open>sentPackets\<close> is the length of the
  list; when it does not decode, the entry is the one of the \<open>catch\<close> block, whose
  \<open>sentPackets\<close> is 0 (see C6).
  In variant B, for the reply set of its probe, the report maps the key of the result
  to an entry built from the reply that is the last appended among those with the
  greatest time stamp, with that reply's payload as \<open>raw_hex\<close>, and
  \<open>all_responses\<close> holds all the replies of the key. Which of several replies with
  the latest time stamp variant A takes is not part of the statement; the
  counterexample below shows that it is not the last appended one.
\<close>

theorem latest_reply_is_authoritative:
  "((addr, responses) \<in> set inputData \<and> responses \<noteq> [] \<longrightarrow>
      (\<exists>i<length responses.
          (\<forall>j<length responses. timestamp (responses ! j) \<le> timestamp (responses ! i))
        \<and> process_address w (addr, responses) \<in> set (processEnhancedData w inputData)
        \<and> process_address w (addr, responses) =
            (case parseServerInfo (utf8Slice w) (response (responses ! i)) of
               Inr info \<Rightarrow>
                 \<lparr>ip = displayAddress addr,
                  e_name = si_name info,
                  e_players = Count (si_players info),
                  e_map = si_map info,
                  e_description = si_description info,
                  ping = pingResult (probe w (fst (split_on 0x3A addr))),
                  updatedAt = map (\<lambda>c. if c = 0x2F then 0x2D else c)
                                (dateString w (timestamp (responses ! i))),
                  sentPackets = length responses,
                  receivedMeta = real (length (response (responses ! i))) / 2\<rparr>
             | Inl err \<Rightarrow> failed_entry w addr)
        \<and> sentPackets (failed_entry w addr) = 0))
   \<and> ((\<forall>d\<in>set datagrams. 0x3A \<notin> set (address (sender d)))
        \<and> (addr, responses) \<in> set (sendUDPRequests_B datagrams) \<longrightarrow>
      (\<exists>report. \<exists>i<length responses.
          processEnhancedData_B w (sendUDPRequests_B datagrams) = Inr report
        \<and> (\<forall>j<length responses. timestamp (responses ! j) \<le> timestamp (responses ! i))
        \<and> (\<forall>j<length responses. i < j \<longrightarrow> timestamp (responses ! j) < timestamp (responses ! i))
        \<and> map_of report
              (fst (result_of w addr (responses ! i)
                      (Array_sort (\<lambda>a b. timestamp a - timestamp b) responses)))
            = Some (snd (result_of w addr (responses ! i)
                      (Array_sort (\<lambda>a b. timestamp a - timestamp b) responses)))
        \<and> raw_hex (snd (result_of w addr (responses ! i)
                      (Array_sort (\<lambda>a b. timestamp a - timestamp b) responses)))
            = response (responses ! i)
        \<and> length (all_responses (snd (result_of w addr (responses ! i)
                      (Array_sort (\<lambda>a b. timestamp a - timestamp b) responses))))
            = length responses
        \<and> set (all_responses (snd (result_of w addr (responses ! i)
                      (Array_sort (\<lambda>a b. timestamp a - timestamp b) responses))))
            = set responses))"
proof (intro conjI impI)
  assume a: "(addr, responses) \<in> set inputData \<and> responses \<noteq> []"
  let ?sorted = "Array_sort (\<lambda>a b. timestamp b - timestamp a) responses"
  from a hd_sort_descending [of responses timestamp]
  obtain i where i: "i < length responses" "hd ?sorted = responses ! i"
    "\<forall>j<length responses. timestamp (responses ! j) \<le> timestamp (responses ! i)"
    by blast
  from a have ne: "responses \<noteq> []" by simp
  have member: "process_address w (addr, responses) \<in> set (processEnhancedData w inputData)"
    using a processEnhancedData_member by blast
  have entry: "process_address w (addr, responses) =
            (case parseServerInfo (utf8Slice w) (response (responses ! i)) of
               Inr info \<Rightarrow>
                 \<lparr>ip = displayAddress addr,
                  e_name = si_name info,
                  e_players = Count (si_players info),
                  e_map = si_map info,
                  e_description = si_description info,
                  ping = pingResult (probe w (fst (split_on 0x3A addr))),
                  updatedAt = map (\<lambda>c. if c = 0x2F then 0x2D else c)
                                (dateString w (timestamp (responses ! i))),
                  sentPackets = length responses,
                  receivedMeta = real (length (response (responses ! i))) / 2\<rparr>
             | Inl err \<Rightarrow> failed_entry w addr)"
  proof (cases "parseServerInfo (utf8Slice w) (response (responses ! i))")
    case (Inl err)
    then have "parseServerInfo (utf8Slice w) (response (hd ?sorted)) = Inl err"
      by (simp only: i(2))
    then have "process_address w (addr, responses) = failed_entry w addr"
      by (intro process_address_failed) blast
    then show ?thesis by (simp only: Inl sum.case)
  next
    case (Inr info)
    then have "parseServerInfo (utf8Slice w) (response (hd ?sorted)) = Inr info"
      by (simp only: i(2))
    with ne have "process_address w (addr, responses) =
      \<lparr>ip = displayAddress addr,
       e_name = si_name info,
       e_players = Count (si_players info),
       e_map = si_map info,
       e_description = si_description info,
       ping = pingResult (probe w (fst (split_on 0x3A addr))),
       updatedAt = map (\<lambda>c. if c = 0x2F then 0x2D else c)
         (dateString w (timestamp (hd ?sorted))),
       sentPackets = length responses,
       receivedMeta = real (length (response (hd ?sorted))) / 2\<rparr>"
      by (intro process_address_decoded)
    then show ?thesis by (simp only: i(2) Inr sum.case)
  qed
  have zero: "sentPackets (failed_entry w addr) = 0" by (simp add: failed_entry_def)
  from i(1) i(3) member entry zero
  show "\<exists>i<length responses.
          (\<forall>j<length responses. timestamp (responses ! j) \<le> timestamp (responses ! i))
        \<and> process_address w (addr, responses) \<in> set (processEnhancedData w inputData)
        \<and> process_address w (addr, responses) =
            (case parseServerInfo (utf8Slice w) (response (responses ! i)) of
               Inr info \<Rightarrow>
                 \<lparr>ip = displayAddress addr,
                  e_name = si_name info,
                  e_players = Count (si_players info),
                  e_map = si_map info,
                  e_description = si_description info,
                  ping = pingResult (probe w (fst (split_on 0x3A addr))),
                  updatedAt = map (\<lambda>c. if c = 0x2F then 0x2D else c)
                                (dateString w (timestamp (responses ! i))),
                  sentPackets = length responses,
                  receivedMeta = real (length (response (responses ! i))) / 2\<rparr>
             | Inl err \<Rightarrow> failed_entry w addr)
        \<and> sentPackets (failed_entry w addr) = 0"
    by blast
next
  assume b: "(\<forall>d\<in>set datagrams. 0x3A \<notin> set (address (sender d)))
        \<and> (addr, responses) \<in> set (sendUDPRequests_B datagrams)"
  let ?sorted = "Array_sort (\<lambda>a b. timestamp a - timestamp b) responses"
  have ne: "responses \<noteq> []" using b probe_B_nonempty by fastforce
  from last_sort_ascending [OF ne, of timestamp]
  obtain i where i: "i < length responses" "last ?sorted = responses ! i"
    "\<forall>j<length responses. timestamp (responses ! j) \<le> timestamp (responses ! i)"
    "\<forall>j<length responses. i < j \<longrightarrow> timestamp (responses ! j) < timestamp (responses ! i)"
    by blast
  from report_B_of_probe [of datagrams addr responses w] b
  obtain report where report: "processEnhancedData_B w (sendUDPRequests_B datagrams) = Inr report"
    "map_of report (fst (result_of w addr (responses ! i) ?sorted))
       = Some (snd (result_of w addr (responses ! i) ?sorted))"
    unfolding i(2) by blast
  have f1: "raw_hex (snd (result_of w addr (responses ! i) ?sorted)) = response (responses ! i)"
    by (rule result_of_fields)
  have f2: "all_responses (snd (result_of w addr (responses ! i) ?sorted)) = ?sorted"
    by (rule result_of_fields)
  have f3: "length (all_responses (snd (result_of w addr (responses ! i) ?sorted))) = length responses"
    unfolding f2 by (rule length_Array_sort)
  have f4: "set (all_responses (snd (result_of w addr (responses ! i) ?sorted))) = set responses"
    unfolding f2 by (rule set_Array_sort)
  from i(1) i(3) i(4) report f1 f3 f4
  show "\<exists>report. \<exists>i<length responses.
          processEnhancedData_B w (sendUDPRequests_B datagrams) = Inr report
        \<and> (\<forall>j<length responses. timestamp (responses ! j) \<le> timestamp (responses ! i))
        \<and> (\<forall>j<length responses. i < j \<longrightarrow> timestamp (responses ! j) < timestamp (responses ! i))
        \<and> map_of report (fst (result_of w addr (responses ! i) ?sorted))
            = Some (snd (result_of w addr (responses ! i) ?sorted))
        \<and> raw_hex (snd (result_of w addr (responses ! i) ?sorted)) = response (responses ! i)
        \<and> length (all_responses (snd (result_of w addr (responses ! i) ?sorted))) = length responses
        \<and> set (all_responses (snd (result_of w addr (responses ! i) ?sorted))) = set responses"
    by blast
qed

theorem latest_reply_is_authoritative_witness:
  "(js ''h:1'', [\<lparr>timestamp = 4, response = Buffer_toString_hex (3 # 0x41 # replicate 22 0)\<rparr>,
                 \<lparr>timestamp = 5, response = Buffer_toString_hex (3 # 0x42 # replicate 22 0)\<rparr>])
     \<in> set [(js ''h:1'', [\<lparr>timestamp = 4, response = Buffer_toString_hex (3 # 0x41 # replicate 22 0)\<rparr>,
                 \<lparr>timestamp = 5, response = Buffer_toString_hex (3 # 0x42 # replicate 22 0)\<rparr>])]
   \<and> e_name (process_address sample_world
        (js ''h:1'', [\<lparr>timestamp = 4, response = Buffer_toString_hex (3 # 0x41 # replicate 22 0)\<rparr>,
                 \<lparr>timestamp = 5, response = Buffer_toString_hex (3 # 0x42 # replicate 22 0)\<rparr>]))
       = js ''B''
   \<and> sentPackets (process_address sample_world
        (js ''h:1'', [\<lparr>timestamp = 4, response = Buffer_toString_hex (3 # 0x41 # replicate 22 0)\<rparr>,
                 \<lparr>timestamp = 5, response = Buffer_toString_hex (3 # 0x42 # replicate 22 0)\<rparr>]))
       = 2
   \<and> sentPackets (process_address sample_world (js ''h:1'', [\<lparr>timestamp = 2, response = []\<rparr>]))
       = 0
   \<and> sendUDPRequests_B
        [\<lparr>msg = [0x41], sender = \<lparr>address = js ''1.2.3.4'', rport = 7000\<rparr>, arrival = 5\<rparr>,
         \<lparr>msg = [0x42], sender = \<lparr>address = js ''1.2.3.4'', rport = 7000\<rparr>, arrival = 5\<rparr>]
       = [(js ''1.2.3.4:7000'', [\<lparr>timestamp = 5, response = js ''41''\<rparr>,
                                 \<lparr>timestamp = 5, response = js ''42''\<rparr>])]
   \<and> (\<exists>report v. processEnhancedData_B sample_world (sendUDPRequests_B
        [\<lparr>msg = [0x41], sender = \<lparr>address = js ''1.2.3.4'', rport = 7000\<rparr>, arrival = 5\<rparr>,
         \<lparr>msg = [0x42], sender = \<lparr>address = js ''1.2.3.4'', rport = 7000\<rparr>, arrival = 5\<rparr>])
          = Inr report
        \<and> map_of report (js ''1.2.3.4:7000'') = Some v
        \<and> raw_hex v = js ''42'')"
proof -
  let ?ra = "\<lparr>timestamp = 4, response = Buffer_toString_hex (3 # 0x41 # replicate 22 0)\<rparr>"
  let ?rb = "\<lparr>timestamp = 5, response = Buffer_toString_hex (3 # 0x42 # replicate 22 0)\<rparr>"
  let ?rs = "[?ra, ?rb]"
  let ?k = "js ''h:1''"
  have u: "utf8Slice sample_world = ascii_slice" by (simp add: sample_world_def)
  have hypA: "(?k, ?rs) \<in> set [(?k, ?rs)] \<and> ?rs \<noteq> []" by simp
  from latest_reply_is_authoritative
    [where addr = ?k and responses = ?rs and inputData = "[(?k, ?rs)]" and w = sample_world,
      THEN conjunct1, THEN mp, OF hypA]
  obtain i where i: "i < length ?rs"
    "\<forall>j<length ?rs. timestamp (?rs ! j) \<le> timestamp (?rs ! i)"
    "process_address sample_world (?k, ?rs) =
       (case parseServerInfo (utf8Slice sample_world) (response (?rs ! i)) of
          Inr info \<Rightarrow>
            \<lparr>ip = displayAddress ?k,
             e_name = si_name info,
             e_players = Count (si_players info),
             e_map = si_map info,
             e_description = si_description info,
             ping = pingResult (probe sample_world (fst (split_on 0x3A ?k))),
             updatedAt = map (\<lambda>c. if c = 0x2F then 0x2D else c)
                           (dateString sample_world (timestamp (?rs ! i))),
             sentPackets = length ?rs,
             receivedMeta = real (length (response (?rs ! i))) / 2\<rparr>
        | Inl err \<Rightarrow> failed_entry sample_world ?k)"
    by blast
  have i1: "i = 1"
  proof (rule ccontr)
    assume "i \<noteq> 1"
    with i(1) have "i = 0" by simp
    moreover have "timestamp (?rs ! 1) \<le> timestamp (?rs ! i)"
      by (rule i(2) [rule_format]) simp
    ultimately show False by simp
  qed
  have "parseServerInfo (utf8Slice sample_world) (response (?rs ! i))
      = Inr \<lparr>si_name = js ''B'', si_description = [], si_players = 0, si_map = []\<rparr>"
    unfolding i1 u by (simp add: sample_payload_B)
  with i(3) have A: "e_name (process_address sample_world (?k, ?rs)) = js ''B''"
    "sentPackets (process_address sample_world (?k, ?rs)) = 2"
    by simp_all

  let ?fs = "[\<lparr>timestamp = 2, response = []\<rparr>]"
  have hypF: "(?k, ?fs) \<in> set [(?k, ?fs)] \<and> ?fs \<noteq> []" by simp
  have empty: "parseServerInfo ascii_slice [] = Inl ERR_BUFFER_OUT_OF_BOUNDS"
    by (simp add: parseServerInfo_def readUInt8_def boundsError_def)
  from latest_reply_is_authoritative
    [where addr = ?k and responses = ?fs and inputData = "[(?k, ?fs)]" and w = sample_world,
      THEN conjunct1, THEN mp, OF hypF]
  obtain m where m: "m < length ?fs"
    "process_address sample_world (?k, ?fs) =
       (case parseServerInfo (utf8Slice sample_world) (response (?fs ! m)) of
          Inr info \<Rightarrow>
            \<lparr>ip = displayAddress ?k,
             e_name = si_name info,
             e_players = Count (si_players info),
             e_map = si_map info,
             e_description = si_description info,
             ping = pingResult (probe sample_world (fst (split_on 0x3A ?k))),
             updatedAt = map (\<lambda>c. if c = 0x2F then 0x2D else c)
                           (dateString sample_world (timestamp (?fs ! m))),
             sentPackets = length ?fs,
             receivedMeta = real (length (response (?fs ! m))) / 2\<rparr>
        | Inl err \<Rightarrow> failed_entry sample_world ?k)"
    "sentPackets (failed_entry sample_world ?k) = 0"
    by blast
  from m(1) have m0: "m = 0" by simp
  have "parseServerInfo (utf8Slice sample_world) (response (?fs ! m)) = Inl ERR_BUFFER_OUT_OF_BOUNDS"
    unfolding m0 u by (simp add: empty)
  with m(2) m(3) have F: "sentPackets (process_address sample_world (?k, ?fs)) = 0"
    by simp

  let ?d1 = "\<lparr>msg = [0x41], sender = \<lparr>address = js ''1.2.3.4'', rport = 7000\<rparr>, arrival = 5\<rparr>"
  let ?d2 = "\<lparr>msg = [0x42], sender = \<lparr>address = js ''1.2.3.4'', rport = 7000\<rparr>, arrival = 5\<rparr>"
  let ?ds = "[?d1, ?d2]"
  let ?qs = "[\<lparr>timestamp = 5, response = js ''41''\<rparr>, \<lparr>timestamp = 5, response = js ''42''\<rparr>]"
  let ?a = "js ''1.2.3.4:7000''"
  have probe: "sendUDPRequests_B ?ds = [(?a, ?qs)]"
    by (simp add: sendUDPRequests_B_def on_message_B_def ipKey_def Number_toString_def
        show_nat.simps digit_char_def js_def Buffer_toString_hex_def)
  have hypB: "(\<forall>d\<in>set ?ds. 0x3A \<notin> set (address (sender d)))
        \<and> (?a, ?qs) \<in> set (sendUDPRequests_B ?ds)"
    unfolding probe by (simp add: js_def)
  let ?sorted = "Array_sort (\<lambda>a b. timestamp a - timestamp b) ?qs"
  from latest_reply_is_authoritative
    [where addr = ?a and responses = ?qs and datagrams = ?ds and w = sample_world,
      THEN conjunct2, THEN mp, OF hypB]
  obtain report n where n: "n < length ?qs"
    "processEnhancedData_B sample_world (sendUDPRequests_B ?ds) = Inr report"
    "\<forall>j<length ?qs. n < j \<longrightarrow> timestamp (?qs ! j) < timestamp (?qs ! n)"
    "map_of report (fst (result_of sample_world ?a (?qs ! n) ?sorted))
       = Some (snd (result_of sample_world ?a (?qs ! n) ?sorted))"
    "raw_hex (snd (result_of sample_world ?a (?qs ! n) ?sorted)) = response (?qs ! n)"
    by blast
  have n1: "n = 1"
  proof (rule ccontr)
    assume "n \<noteq> 1"
    with n(1) have "n = 0" by simp
    moreover from this have "timestamp (?qs ! 1) < timestamp (?qs ! n)"
      by (intro n(3) [rule_format]) simp_all
    ultimately show False by simp
  qed
  have form: "?a = js ''1.2.3.4'' @ 0x3A # Number_toString (Num 7000)"
    by (simp add: Number_toString_def show_nat.simps digit_char_def js_def)
  have "result_key ?a = ?a"
    unfolding form by (subst result_key_key) (simp_all add: js_def defaultPort_def)
  with result_of_key [of sample_world ?a "?qs ! n" ?sorted]
  have key: "fst (result_of sample_world ?a (?qs ! n) ?sorted) = ?a" by auto
  from n(4) n(5) have B: "map_of report ?a = Some (snd (result_of sample_world ?a (?qs ! n) ?sorted))"
    "raw_hex (snd (result_of sample_world ?a (?qs ! n) ?sorted)) = js ''42''"
    unfolding key by (simp_all add: n1)
  from n(2) B have "\<exists>report v. processEnhancedData_B sample_world (sendUDPRequests_B ?ds) = Inr report
        \<and> map_of report ?a = Some v \<and> raw_hex v = js ''42''"
    by blast
  with A F probe show ?thesis by simp
qed

text \<open>
  The counterexample to the claim as it stands, in variant A: of two replies with the
  same time stamp the first appended one gives the fields (the name is \<open>A\<close>, the
  last appended reply decodes to \<open>B\<close>); and a key with two replies of which the
  latest does not decode gets the reply count 0.
\<close>

theorem first_of_equal_timestamps_counterexample:
  "map e_name (processEnhancedData sample_world
      [(js ''h:1'', [\<lparr>timestamp = 5, response = Buffer_toString_hex (3 # 0x41 # replicate 22 0)\<rparr>,
                     \<lparr>timestamp = 5, response = Buffer_toString_hex (3 # 0x42 # replicate 22 0)\<rparr>]),
       (js ''h:2'', [\<lparr>timestamp = 1, response = []\<rparr>, \<lparr>timestamp = 2, response = []\<rparr>])])
     = [js ''A'', [0x6570, 0x636E, 0x89E3, 0x6790, 0x5931, 0x8D25]]
   \<and> map sentPackets (processEnhancedData sample_world
      [(js ''h:1'', [\<lparr>timestamp = 5, response = Buffer_toString_hex (3 # 0x41 # replicate 22 0)\<rparr>,
                     \<lparr>timestamp = 5, response = Buffer_toString_hex (3 # 0x42 # replicate 22 0)\<rparr>]),
       (js ''h:2'', [\<lparr>timestamp = 1, response = []\<rparr>, \<lparr>timestamp = 2, response = []\<rparr>])])
     = [2, 0]
   \<and> map_sum id si_name
        (parseServerInfo (utf8Slice sample_world) (Buffer_toString_hex (3 # 0x42 # replicate 22 0)))
     = Inr (js ''B'')"
proof -
  let ?a = "\<lparr>timestamp = 5, response = Buffer_toString_hex (3 # 0x41 # replicate 22 0)\<rparr>"
  let ?b = "\<lparr>timestamp = 5, response = Buffer_toString_hex (3 # 0x42 # replicate 22 0)\<rparr>"
  let ?x = "\<lparr>timestamp = 1, response = []\<rparr>"
  let ?y = "\<lparr>timestamp = 2, response = []\<rparr>"
  have u: "utf8Slice sample_world = ascii_slice" by (simp add: sample_world_def)
  have s1: "Array_sort (\<lambda>a b. timestamp b - timestamp a) [?a, ?b] = [?a, ?b]"
    by (simp add: Array_sort_def)
  have s2: "Array_sort (\<lambda>a b. timestamp b - timestamp a) [?x, ?y] = [?y, ?x]"
    by (simp add: Array_sort_def)
  have empty: "parseServerInfo ascii_slice [] = Inl ERR_BUFFER_OUT_OF_BOUNDS"
    by (simp add: parseServerInfo_def readUInt8_def boundsError_def)
  have e1: "process_address sample_world (js ''h:1'', [?a, ?b]) =
      \<lparr>ip = displayAddress (js ''h:1''),
       e_name = js ''A'', e_players = Count 0, e_map = [], e_description = [],
       ping = pingResult (probe sample_world (fst (split_on 0x3A (js ''h:1'')))),
       updatedAt = map (\<lambda>c. if c = 0x2F then 0x2D else c) (dateString sample_world 5),
       sentPackets = 2,
       receivedMeta = real (length (Buffer_toString_hex (3 # 0x41 # replicate 22 0))) / 2\<rparr>"
    unfolding process_address_sorted s1 u by (simp add: sample_payload_A)
  have e2: "process_address sample_world (js ''h:2'', [?x, ?y]) = failed_entry sample_world (js ''h:2'')"
    unfolding process_address_sorted s2 u by (simp add: empty)
  show ?thesis
    unfolding processEnhancedData_def u
    by (simp add: e1 e2 failed_entry_def sample_payload_B)
qed

subsection \<open>C5: the targets without a reply\<close>

text \<open>
  Claim C5 says that every target whose key has no entry in the reply set after the
  window is in the list of the targets without a reply and nowhere in the report, and
  that a target with a reply under its key is not in that list.

  This is the main flow of variant B. When the server list loads, the flow returns a
  report and the list. A target is in the list exactly when its key is no key of the
  reply set; and for such a target neither its key nor the key under which the report
  would show it (\<open>result_key\<close> of its key: the host alone for the default port) is a
  key of the report. The senders' addresses are IPv4 addresses, which hold no colon.
\<close>

theorem targets_without_reply_are_listed:
  "(loadServers_B file = Inr servers \<longrightarrow>
      (\<exists>report. main_B w file datagrams
         = Inr (report, noResponseServers servers (sendUDPRequests_B datagrams))))
   \<and> (loadServers_B file = Inr servers
        \<and> main_B w file datagrams = Inr (report, noResponse)
        \<and> (\<forall>d\<in>set datagrams. 0x3A \<notin> set (address (sender d)))
        \<and> t \<in> set servers \<longrightarrow>
      (server_key t \<notin> fst ` set (sendUDPRequests_B datagrams) \<longrightarrow>
         t \<in> set noResponse
         \<and> server_key t \<notin> fst ` set report
         \<and> result_key (server_key t) \<notin> fst ` set report)
      \<and> (server_key t \<in> fst ` set (sendUDPRequests_B datagrams) \<longrightarrow> t \<notin> set noResponse))"
proof (intro conjI impI)
  assume "loadServers_B file = Inr servers"
  then show "\<exists>report. main_B w file datagrams
         = Inr (report, noResponseServers servers (sendUDPRequests_B datagrams))"
    by (rule main_B_total)
next
  assume a: "loadServers_B file = Inr servers
        \<and> main_B w file datagrams = Inr (report, noResponse)
        \<and> (\<forall>d\<in>set datagrams. 0x3A \<notin> set (address (sender d)))
        \<and> t \<in> set servers"
  then have report: "processEnhancedData_B w (sendUDPRequests_B datagrams) = Inr report"
    and nr: "noResponse = noResponseServers servers (sendUDPRequests_B datagrams)"
    using main_B_Inr [of w "file" datagrams report noResponse] by auto
  from a have host: "0x3A \<notin> set (host t)" using loadServers_B_hosts by blast
  {
    assume absent: "server_key t \<notin> fst ` set (sendUDPRequests_B datagrams)"
    show "t \<in> set noResponse"
      using a absent nr by (simp add: noResponseServers_def)
    have no: "k \<notin> fst ` set report"
      if k: "k = server_key t \<or> k = result_key (server_key t)" for k
    proof
      assume "k \<in> fst ` set report"
      from report_B_keys_of_probe [OF report this]
      obtain d where d: "d \<in> set datagrams" "k = ipKey (sender d) \<or> k = result_key (ipKey (sender d))"
        by blast
      from a d(1) have addr: "0x3A \<notin> set (address (sender d))" by blast
      have "host t = address (sender d) \<and> port t = Num (int (rport (sender d)))"
        by (rule report_keys_differ [where k = k])
           (use host addr k d(2) in \<open>simp_all add: server_key_form ipKey_form\<close>)
      then have "server_key t = ipKey (sender d)" by (simp add: server_key_form ipKey_form)
      with d(1) have "server_key t \<in> fst ` set (sendUDPRequests_B datagrams)"
        by (simp add: probe_B_keys)
      with absent show False by blast
    qed
    from no [of "server_key t"] show "server_key t \<notin> fst ` set report" by simp
    from no [of "result_key (server_key t)"] show "result_key (server_key t) \<notin> fst ` set report"
      by simp
  }
  {
    assume "server_key t \<in> fst ` set (sendUDPRequests_B datagrams)"
    then show "t \<notin> set noResponse"
      using nr by (simp add: noResponseServers_def)
  }
qed

theorem targets_without_reply_are_listed_witness:
  "loadServers_B (Inr [\<lparr>g_name = js ''G'', g_address = Some [js ''1.2.3.4:7000'', js ''a.test'']\<rparr>])
     = Inr [\<lparr>host = js ''1.2.3.4'', port = Num 7000, name = js ''G''\<rparr>,
            \<lparr>host = js ''a.test'', port = Num 6567, name = js ''G''\<rparr>]
   \<and> sendUDPRequests_B
        [\<lparr>msg = [0x41], sender = \<lparr>address = js ''1.2.3.4'', rport = 7000\<rparr>, arrival = 5\<rparr>]
       = [(js ''1.2.3.4:7000'', [\<lparr>timestamp = 5, response = js ''41''\<rparr>])]
   \<and> server_key \<lparr>host = js ''a.test'', port = Num 6567, name = js ''G''\<rparr> = js ''a.test:6567''
   \<and> (\<exists>report. main_B sample_world
          (Inr [\<lparr>g_name = js ''G'', g_address = Some [js ''1.2.3.4:7000'', js ''a.test'']\<rparr>])
          [\<lparr>msg = [0x41], sender = \<lparr>address = js ''1.2.3.4'', rport = 7000\<rparr>, arrival = 5\<rparr>]
        = Inr (report, [\<lparr>host = js ''a.test'', port = Num 6567, name = js ''G''\<rparr>])
      \<and> js ''a.test:6567'' \<notin> fst ` set report
      \<and> result_key (js ''a.test:6567'') \<notin> fst ` set report)"
proof -
  let ?file = "Inr [\<lparr>g_name = js ''G'', g_address = Some [js ''1.2.3.4:7000'', js ''a.test'']\<rparr>]
                 :: js_error + group list"
  let ?t1 = "\<lparr>host = js ''1.2.3.4'', port = Num 7000, name = js ''G''\<rparr>"
  let ?t2 = "\<lparr>host = js ''a.test'', port = Num 6567, name = js ''G''\<rparr>"
  let ?ds = "[\<lparr>msg = [0x41], sender = \<lparr>address = js ''1.2.3.4'', rport = 7000\<rparr>, arrival = 5\<rparr>]"
  let ?rs = "[(js ''1.2.3.4:7000'', [\<lparr>timestamp = 5, response = js ''41''\<rparr>])]"
  have p7000: "parseInt [0x37, 0x30, 0x30, 0x30] = Num 7000"
    by (simp add: parseInt_def Let_def is_white_def is_digit_of_def digit_value_def digit_of_def)
  have a1: "target_of_B (js ''G'') (js ''1.2.3.4'' @ 0x3A # js ''7000'') = ?t1"
    by (subst target_of_colon(2), simp, subst target_of_segments(2))
       (simp_all add: js_def p7000)
  have a2: "target_of_B (js ''G'') (js ''a.test'') = ?t2"
    by (subst target_of_no_colon(2), simp add: js_def, subst target_of_no_colon(1))
       (simp_all add: js_def)
  have load: "loadServers_B ?file = Inr [?t1, ?t2]"
    using a1 a2 by (simp add: loadServers_B_def js_def)
  have probe: "sendUDPRequests_B ?ds = ?rs"
    by (simp add: sendUDPRequests_B_def on_message_B_def ipKey_def Number_toString_def
        show_nat.simps digit_char_def js_def Buffer_toString_hex_def)
  have k1: "server_key ?t1 = js ''1.2.3.4:7000''" and k2: "server_key ?t2 = js ''a.test:6567''"
    by (simp_all add: server_key_def Number_toString_def show_nat.simps digit_char_def js_def)
  have nr: "noResponseServers [?t1, ?t2] (sendUDPRequests_B ?ds) = [?t2]"
    unfolding probe by (simp add: noResponseServers_def k1 k2) (simp add: js_def)
  from targets_without_reply_are_listed
    [where servers = "[?t1, ?t2]" and datagrams = ?ds and w = sample_world,
      THEN conjunct1, THEN mp, OF load]
  obtain report where main: "main_B sample_world ?file ?ds = Inr (report, [?t2])"
    unfolding nr by blast
  have hyp: "loadServers_B ?file = Inr [?t1, ?t2]
        \<and> main_B sample_world ?file ?ds = Inr (report, [?t2])
        \<and> (\<forall>d\<in>set ?ds. 0x3A \<notin> set (address (sender d)))
        \<and> ?t2 \<in> set [?t1, ?t2]"
    using load main by (simp add: js_def)
  have absent: "server_key ?t2 \<notin> fst ` set (sendUDPRequests_B ?ds)"
    unfolding probe k2 by (simp add: js_def)
  from targets_without_reply_are_listed
    [where servers = "[?t1, ?t2]" and datagrams = ?ds and w = sample_world and t = ?t2
       and report = report and noResponse = "[?t2]",
      THEN conjunct2, THEN mp, OF hyp, THEN conjunct1, THEN mp, OF absent]
  have "server_key ?t2 \<notin> fst ` set report" "result_key (server_key ?t2) \<notin> fst ` set report"
    by blast+
  with main have "\<exists>report. main_B sample_world ?file ?ds = Inr (report, [?t2])
      \<and> js ''a.test:6567'' \<notin> fst ` set report
      \<and> result_key (js ''a.test:6567'') \<notin> fst ` set report"
    unfolding k2 by blast
  with load probe k2 show ?thesis by blast
qed

end
